theory Spec2Isabelle
  imports Complex_Main "HOL-Library.AList" "HOL-Library.Stream"
begin

section \<open>SumSum: shared constants and helpers (utils.js)\<close>

text \<open>
  The game is written in JavaScript. Numbers that the program only ever uses as integers
  (cube values, targets, rows, the score, the level, counters) are \<open>int\<close>; array positions
  are \<open>nat\<close>; timestamps, animation progress and the score multiplier are \<open>real\<close>.
  A JavaScript \<open>Map\<close> is an association list in insertion order: \<open>map_of\<close> is \<open>get\<close>,
  \<open>AList.update\<close> is \<open>set\<close> (an existing key keeps its position, a new key goes last).
  A function of the source whose name starts with an underscore keeps its name without it.
  A call that ends in an uncaught \<open>TypeError\<close> (a property read on \<open>undefined\<close>), or that
  yields \<open>undefined\<close> where a number is due, has the result \<open>None\<close>; the state at the
  moment of the throw is not kept.

  \<open>Math.random()\<close> is the head of a stream of future draws, which the caller passes on;
  each draw is a real number in \<open>[0, 1)\<close>, and the arithmetic on it is exact.
\<close>

type_synonym rng = "real stream"

definition unit_draws :: "rng \<Rightarrow> bool" where
  "unit_draws rs = (\<forall>n. 0 \<le> rs !! n \<and> rs !! n < 1)"

definition NUM_COLUMNS :: nat where "NUM_COLUMNS = 4"
definition MAX_COLUMN_HEIGHT :: nat where "MAX_COLUMN_HEIGHT = 8"
definition DANGER_HEIGHT :: nat where "DANGER_HEIGHT = 6"
definition MIN_CUBES_FOR_SUM :: nat where "MIN_CUBES_FOR_SUM = 2"
definition MAX_CUBES_FOR_SUM :: nat where "MAX_CUBES_FOR_SUM = 5"
definition MIN_TARGET :: int where "MIN_TARGET = 5"
definition QUEUE_SIZE :: nat where "QUEUE_SIZE = 2"
definition POINTS_PER_LEVEL :: int where "POINTS_PER_LEVEL = 500"
definition COMBO_TIMEOUT :: real where "COMBO_TIMEOUT = 5000"

text \<open>\<open>randomInt(min, max) = Math.floor(Math.random() * (max - min + 1)) + min\<close>.\<close>

definition randomInt :: "int \<Rightarrow> int \<Rightarrow> rng \<Rightarrow> int \<times> rng" where
  "randomInt lo hi rs = (\<lfloor>shd rs * real_of_int (hi - lo + 1)\<rfloor> + lo, stl rs)"

text \<open>
  \<open>randomChoice(arr) = arr[Math.floor(Math.random() * arr.length)]\<close>; the read is
  \<open>undefined\<close> (\<open>None\<close>) when the position is not one of the array.
\<close>

definition randomChoice :: "'a list \<Rightarrow> rng \<Rightarrow> 'a option \<times> rng" where
  "randomChoice arr rs =
     (let k = \<lfloor>shd rs * real (length arr)\<rfloor>
      in (if 0 \<le> k \<and> nat k < length arr then Some (arr ! nat k) else None, stl rs))"

text \<open>
  \<open>shuffle\<close> (Fisher-Yates): for \<open>i\<close> from \<open>length - 1\<close> down to \<open>1\<close>, draw
  \<open>j = floor(random * (i + 1))\<close> and swap positions \<open>i\<close> and \<open>j\<close> of the copy.
\<close>

fun shuffle_from :: "nat \<Rightarrow> 'a list \<Rightarrow> rng \<Rightarrow> 'a list \<times> rng" where
  "shuffle_from 0 a rs = (a, rs)"
| "shuffle_from (Suc k) a rs =
     (let i = Suc k;
          j = nat \<lfloor>shd rs * real (i + 1)\<rfloor>
      in shuffle_from k (a[i := a ! j, j := a ! i]) (stl rs))"

definition shuffle :: "'a list \<Rightarrow> rng \<Rightarrow> 'a list \<times> rng" where
  "shuffle arr rs = shuffle_from (length arr - 1) arr rs"

definition clamp :: "int \<Rightarrow> int \<Rightarrow> int \<Rightarrow> int" where
  "clamp v lo hi = max lo (min hi v)"

text \<open>
  A cube. Its \<open>id\<close> is the string \<open>cube_<Date.now()>_<counter>\<close>, kept as the pair of the
  two numbers; \<open>value\<close> is the field \<open>val\<close>.
\<close>

record cube =
  cube_id :: "int \<times> nat"
  val :: int
  column :: nat
  row :: int
  selected :: bool
  falling :: bool
  fallProgress :: real
  fallFrom :: int
  fallTo :: int
  removing :: bool
  removeProgress :: real
  spawnTime :: real
  bounceProgress :: real

text \<open>\<open>createCube(value, column)\<close>; \<open>dnow\<close> is \<open>Date.now()\<close>, \<open>n\<close> the id counter.\<close>

definition createCube :: "int \<Rightarrow> nat \<Rightarrow> int \<Rightarrow> nat \<Rightarrow> cube" where
  "createCube v c dnow n =
     \<lparr>cube_id = (dnow, n), val = v, column = c, row = -1, selected = False,
      falling = False, fallProgress = 0, fallFrom = -1, fallTo = -1,
      removing = False, removeProgress = 0, spawnTime = real_of_int dnow,
      bounceProgress = 0\<rparr>"

text \<open>The level table; the display label of a level is left out.\<close>

record level_config =
  maxNumber :: int
  maxTarget :: int
  spawnInterval :: int

definition LEVEL_CONFIG :: "level_config option list" where
  "LEVEL_CONFIG =
     [None,
      Some \<lparr>maxNumber = 6, maxTarget = 15, spawnInterval = 3000\<rparr>,
      Some \<lparr>maxNumber = 6, maxTarget = 15, spawnInterval = 2800\<rparr>,
      Some \<lparr>maxNumber = 6, maxTarget = 16, spawnInterval = 2600\<rparr>,
      Some \<lparr>maxNumber = 9, maxTarget = 25, spawnInterval = 2400\<rparr>,
      Some \<lparr>maxNumber = 9, maxTarget = 25, spawnInterval = 2200\<rparr>,
      Some \<lparr>maxNumber = 9, maxTarget = 27, spawnInterval = 2000\<rparr>,
      Some \<lparr>maxNumber = 12, maxTarget = 30, spawnInterval = 1800\<rparr>,
      Some \<lparr>maxNumber = 12, maxTarget = 32, spawnInterval = 1600\<rparr>,
      Some \<lparr>maxNumber = 12, maxTarget = 35, spawnInterval = 1500\<rparr>,
      Some \<lparr>maxNumber = 12, maxTarget = 35, spawnInterval = 1400\<rparr>]"

definition getLevelConfig :: "int \<Rightarrow> level_config option" where
  "getLevelConfig lvl =
     (let idx = clamp lvl 1 (int (length LEVEL_CONFIG) - 1)
      in LEVEL_CONFIG ! nat idx)"

section \<open>The game state (game.js, generator.js)\<close>

text \<open>
  One record holds the fields of \<open>SumSumGame\<close>, the planned cubes of its
  \<open>GameGenerator\<close>, the global id counter and the stream of future random draws.
  The calls into sound, vibration, storage and the user interface do not change these
  fields and are left out, except that \<open>gameOverCalls\<close> counts the runs of \<open>gameOver()\<close>.
\<close>

record game =
  columns :: "cube list list"
  queues :: "int list list"
  targets :: "int list"
  score :: int
  level :: int
  isPlaying :: bool
  isPaused :: bool
  comboCount :: int
  lastMatchTime :: real
  targetsCleared :: int
  shaking :: bool
  pendingSpawnCol :: int
  plannedCubes :: "(nat \<times> int list) list"
  idCounter :: nat
  rnd :: rng
  gameOverCalls :: nat

subsection \<open>Settling a column\<close>

definition settle_cube :: "nat \<Rightarrow> cube \<Rightarrow> cube" where
  "settle_cube i c =
     (if row c \<noteq> int i
      then c\<lparr>falling := True, fallFrom := row c, fallTo := int i,
             fallProgress := 0, row := int i\<rparr>
      else c)"

text \<open>The loop \<open>for (let i = 0; i < column.length; i++)\<close>, from position \<open>i\<close> on.\<close>

fun settle_from :: "nat \<Rightarrow> cube list \<Rightarrow> cube list" where
  "settle_from i [] = []"
| "settle_from i (c # cs) = settle_cube i c # settle_from (Suc i) cs"

definition settleColumn :: "game \<Rightarrow> nat \<Rightarrow> game option" where
  "settleColumn g colIdx =
     (if colIdx < length (columns g)
      then Some (g\<lparr>columns := (columns g)[colIdx := settle_from 0 (columns g ! colIdx)]\<rparr>)
      else None)"

subsection \<open>Combination search (generator.js)\<close>

text \<open>
  \<open>findAllPossibleSums\<close> fills a \<open>Map\<close> from a sum to the list of index combinations that
  give it. Recording one combination is
  \<open>if (!results.has(sum)) results.set(sum, []); results.get(sum).push([...used])\<close>.
\<close>

type_synonym sums_map = "(int \<times> nat list list) list"

definition record_combo :: "sums_map \<Rightarrow> int \<Rightarrow> nat list \<Rightarrow> sums_map" where
  "record_combo results currentSum usedIndices =
     (let r1 = (if map_of results currentSum = None
                then AList.update currentSum [] results else results)
      in case map_of r1 currentSum of
           Some cs \<Rightarrow> AList.update currentSum (cs @ [usedIndices]) r1
         | None \<Rightarrow> r1)"

text \<open>
  The inner function \<open>search\<close> and its loop \<open>for (let i = startIdx; i < cubeValues.length; i++)\<close>
  (\<open>search_for\<close>, from position \<open>i\<close> on); the map \<open>results\<close> is passed through.
\<close>

function search ::
    "int list \<Rightarrow> nat \<Rightarrow> nat \<Rightarrow> int \<Rightarrow> nat \<Rightarrow> nat list \<Rightarrow> sums_map \<Rightarrow> sums_map"
  and search_for ::
    "int list \<Rightarrow> nat \<Rightarrow> nat \<Rightarrow> int \<Rightarrow> nat \<Rightarrow> nat list \<Rightarrow> sums_map \<Rightarrow> sums_map"
where
  "search cubeValues maxCubes startIdx currentSum count usedIndices results =
     (if count > maxCubes then results
      else search_for cubeValues maxCubes startIdx currentSum count usedIndices
             (if count \<ge> MIN_CUBES_FOR_SUM
              then record_combo results currentSum usedIndices else results))"
| "search_for cubeValues maxCubes i currentSum count usedIndices results =
     (if i < length cubeValues
      then search_for cubeValues maxCubes (i + 1) currentSum count usedIndices
             (search cubeValues maxCubes (i + 1) (currentSum + cubeValues ! i)
                (count + 1) (usedIndices @ [i]) results)
      else results)"
  by pat_completeness auto
termination
  by (relation "measure (\<lambda>x. case x of
          Inl (vs, mx, i, rest) \<Rightarrow> 2 * (length vs - i) + 1
        | Inr (vs, mx, i, rest) \<Rightarrow> 2 * (length vs - i))") auto

definition findAllPossibleSums :: "int list \<Rightarrow> nat \<Rightarrow> sums_map" where
  "findAllPossibleSums cubeValues maxCubes = search cubeValues maxCubes 0 0 0 [] []"

text \<open>
  \<open>_findCombinations(values, target, count)\<close>: the combinations of exactly \<open>count\<close> values
  that add up to \<open>target\<close>, as lists of values. Its inner \<open>search\<close> is \<open>combo_search\<close>, the
  loop of that \<open>combo_search_for\<close>.
\<close>

function combo_search ::
    "int list \<Rightarrow> nat \<Rightarrow> nat \<Rightarrow> int \<Rightarrow> nat \<Rightarrow> int list \<Rightarrow> int list list \<Rightarrow> int list list"
  and combo_search_for ::
    "int list \<Rightarrow> nat \<Rightarrow> nat \<Rightarrow> int \<Rightarrow> nat \<Rightarrow> int list \<Rightarrow> int list list \<Rightarrow> int list list"
where
  "combo_search vs count startIdx remaining depth used results =
     (if depth = count
      then (if remaining = 0 then results @ [used] else results)
      else combo_search_for vs count startIdx remaining depth used results)"
| "combo_search_for vs count i remaining depth used results =
     (if i < length vs
      then combo_search_for vs count (i + 1) remaining depth used
             (if vs ! i \<le> remaining
              then combo_search vs count (i + 1) (remaining - vs ! i) (depth + 1)
                     (used @ [vs ! i]) results
              else results)
      else results)"
  by pat_completeness auto
termination
  by (relation "measure (\<lambda>x. case x of
          Inl (vs, c, i, rest) \<Rightarrow> 2 * (length vs - i) + 1
        | Inr (vs, c, i, rest) \<Rightarrow> 2 * (length vs - i))") auto

definition findCombinations :: "int list \<Rightarrow> int \<Rightarrow> nat \<Rightarrow> int list list" where
  "findCombinations vs target count = combo_search vs count 0 target 0 [] []"

text \<open>
  \<open>_findHelpfulValues\<close>: the values \<open>x\<close> of \<open>1..maxValue\<close>, in this order, for which the
  existing values with \<open>x\<close> added have \<open>target\<close> among their sums of up to 4 cubes.
\<close>

definition findHelpfulValues :: "int list \<Rightarrow> int \<Rightarrow> int \<Rightarrow> int list" where
  "findHelpfulValues existingValues target maxValue =
     filter (\<lambda>x. map_of (findAllPossibleSums (existingValues @ [x]) 4) target \<noteq> None)
       [1..maxValue]"

subsection \<open>Reading the board\<close>

definition getAllCubeValues :: "game \<Rightarrow> int list" where
  "getAllCubeValues g = map val (filter (\<lambda>c. \<not> removing c) (concat (columns g)))"

definition getUpcomingCubeValues :: "game \<Rightarrow> int list" where
  "getUpcomingCubeValues g = concat (queues g) @ concat (map snd (plannedCubes g))"

text \<open>\<open>_getNumberDistribution\<close>: \<open>dist[cube.value] = (dist[cube.value] || 0) + 1\<close>.\<close>

definition getNumberDistribution :: "game \<Rightarrow> (int \<rightharpoonup> int)" where
  "getNumberDistribution g =
     fold (\<lambda>c dist. dist(val c \<mapsto> (case dist (val c) of None \<Rightarrow> 0 | Some n \<Rightarrow> n) + 1))
       (concat (columns g)) Map.empty"

definition getSelectedSum :: "game \<Rightarrow> int" where
  "getSelectedSum g =
     sum_list (map val (filter (\<lambda>c. selected c \<and> \<not> removing c) (concat (columns g))))"

text \<open>
  A cube object is referred to by its place: \<open>(c, i)\<close> is the object \<open>columns[c][i]\<close>.
  \<open>getSelectedCubes\<close> returns the selected cubes that are not being removed, column by
  column and bottom-up.
\<close>

type_synonym cube_ref = "nat \<times> nat"

definition getSelectedCubes :: "game \<Rightarrow> cube_ref list" where
  "getSelectedCubes g =
     concat (map (\<lambda>c. map (\<lambda>i. (c, i))
                   (filter (\<lambda>i. selected (columns g ! c ! i) \<and> \<not> removing (columns g ! c ! i))
                      [0..<length (columns g ! c)]))
             [0..<length (columns g)])"

definition deref :: "game \<Rightarrow> cube_ref \<Rightarrow> cube option" where
  "deref g r =
     (if fst r < length (columns g) \<and> snd r < length (columns g ! fst r)
      then Some (columns g ! fst r ! snd r) else None)"

subsection \<open>Cube generation\<close>

text \<open>
  \<open>_weightedRandom(weights)\<close>: \<open>r = Math.random() * total\<close>, then the first position at
  which \<open>r\<close>, lowered by the weights so far, is not positive; \<open>weights.length - 1\<close> when
  there is none.
\<close>

fun weightedRandom_from :: "nat \<Rightarrow> int list \<Rightarrow> real \<Rightarrow> nat option" where
  "weightedRandom_from i [] r = None"
| "weightedRandom_from i (w # ws) r =
     (let r' = r - real_of_int w
      in if r' \<le> 0 then Some i else weightedRandom_from (Suc i) ws r')"

definition weightedRandom :: "int list \<Rightarrow> rng \<Rightarrow> int \<times> rng" where
  "weightedRandom weights rs =
     (let total = sum_list weights;
          r = shd rs * real_of_int total
      in (case weightedRandom_from 0 weights r of
            Some i \<Rightarrow> int i
          | None \<Rightarrow> int (length weights) - 1,
          stl rs))"

definition generateBalancedCube :: "game \<Rightarrow> level_config \<Rightarrow> int \<times> game" where
  "generateBalancedCube g config =
     (let distribution = getNumberDistribution g;
          weights = map (\<lambda>i. max 1 (10 - (case distribution i of None \<Rightarrow> 0 | Some n \<Rightarrow> n) * 2))
                      [1..maxNumber config];
          (k, rs) = weightedRandom weights (rnd g)
      in (k + 1, g\<lparr>rnd := rs\<rparr>))"

text \<open>
  \<open>_generateHelpfulCube\<close>. \<open>!currentTarget\<close> holds when there is no target or it is 0.
  The result \<open>None\<close> is \<open>randomChoice\<close> giving \<open>undefined\<close>.
\<close>

definition generateHelpfulCube :: "game \<Rightarrow> level_config \<Rightarrow> (int \<times> game) option" where
  "generateHelpfulCube g config =
     (let fallback = (\<lambda>rs. let (v, rs') = randomInt 1 (maxNumber config) rs
                            in Some (v, g\<lparr>rnd := rs'\<rparr>))
      in if targets g = [] \<or> hd (targets g) = 0 then fallback (rnd g)
         else
           let currentTarget = hd (targets g);
               selectedSum = getSelectedSum g;
               needed = currentTarget - selectedSum;
               wanted = (needed > 0 \<and> needed \<le> maxNumber config)
           in if wanted \<and> shd (rnd g) < 0.6 then Some (needed, g\<lparr>rnd := stl (rnd g)\<rparr>)
              else
                let rs = (if wanted then stl (rnd g) else rnd g);
                    allCubes = getAllCubeValues g
                in if findCombinations allCubes currentTarget 2 \<noteq> [] then fallback rs
                   else if findCombinations allCubes currentTarget 3 \<noteq> [] then fallback rs
                   else
                     let bestValues = findHelpfulValues allCubes currentTarget (maxNumber config)
                     in if bestValues \<noteq> []
                        then (case randomChoice bestValues rs of
                                (Some v, rs') \<Rightarrow> Some (v, g\<lparr>rnd := rs'\<rparr>)
                              | (None, rs') \<Rightarrow> None)
                        else fallback rs)"

text \<open>\<open>_generateAdaptiveCube\<close>; \<open>columns[colIndex]\<close> is \<open>undefined\<close> outside the board.\<close>

definition generateAdaptiveCube :: "game \<Rightarrow> nat \<Rightarrow> level_config \<Rightarrow> (int \<times> game) option" where
  "generateAdaptiveCube g colIndex config =
     (if colIndex < length (columns g)
      then (let colHeight = length (columns g ! colIndex)
            in if colHeight \<ge> DANGER_HEIGHT then generateHelpfulCube g config
               else Some (generateBalancedCube g config))
      else None)"

text \<open>
  \<open>generateNextCubeValue(colIndex)\<close>: a planned cube of the column first
  (\<open>planned.shift()\<close>), adaptive generation otherwise.
\<close>

definition generateNextCubeValue :: "game \<Rightarrow> nat \<Rightarrow> (int \<times> game) option" where
  "generateNextCubeValue g colIndex =
     (let config = getLevelConfig (level g)
      in case map_of (plannedCubes g) colIndex of
           Some (v # rest) \<Rightarrow>
             Some (v, g\<lparr>plannedCubes := AList.update colIndex rest (plannedCubes g)\<rparr>)
         | _ \<Rightarrow> (case config of
                   None \<Rightarrow> None
                 | Some cfg \<Rightarrow> generateAdaptiveCube g colIndex cfg))"

text \<open>
  \<open>chooseColumn()\<close>: every column that is not full is listed \<open>max(1, 8 - height)\<close> times,
  and one entry of the list is drawn; when every column is full, a random index is drawn.
  Its variable \<open>minHeight\<close> is computed and never read, and is left out.
\<close>

definition chooseColumn :: "game \<Rightarrow> (int \<times> game) option" where
  "chooseColumn g =
     (let heights = map length (columns g);
          candidates =
            concat (map (\<lambda>i. if heights ! i \<ge> MAX_COLUMN_HEIGHT then []
                              else replicate (max 1 (MAX_COLUMN_HEIGHT - heights ! i)) i)
                      [0..<length (columns g)])
      in if candidates = []
         then (let (v, rs) = randomInt 0 (int NUM_COLUMNS - 1) (rnd g)
               in Some (v, g\<lparr>rnd := rs\<rparr>))
         else (case randomChoice candidates (rnd g) of
                 (Some c, rs) \<Rightarrow> Some (int c, g\<lparr>rnd := rs\<rparr>)
               | (None, rs) \<Rightarrow> None))"

subsection \<open>Target generation\<close>

text \<open>
  A valid sum is the object \<open>{sum, combos}\<close>, here the pair of the two.
  \<open>_chooseSumByDifficulty\<close> draws the roll and then the position in the pool;
  \<open>difficulty_pool\<close> is the value of its variable \<open>pool\<close>.
\<close>

type_synonym valid_sum = "int \<times> nat list list"

definition by2 :: "valid_sum list \<Rightarrow> valid_sum list" where
  "by2 validSums = filter (\<lambda>s. list_ex (\<lambda>c. length c = 2) (snd s)) validSums"

definition by3 :: "valid_sum list \<Rightarrow> valid_sum list" where
  "by3 validSums = filter (\<lambda>s. list_ex (\<lambda>c. length c = 3) (snd s)) validSums"

definition by4 :: "valid_sum list \<Rightarrow> valid_sum list" where
  "by4 validSums = filter (\<lambda>s. list_ex (\<lambda>c. length c \<ge> 4) (snd s)) validSums"

definition difficulty_pool :: "valid_sum list \<Rightarrow> real \<Rightarrow> valid_sum list" where
  "difficulty_pool validSums roll =
     (if roll < 0.4 \<and> by2 validSums \<noteq> [] then by2 validSums
      else if roll < 0.8 \<and> by3 validSums \<noteq> [] then by3 validSums
      else if by4 validSums \<noteq> [] then by4 validSums
      else validSums)"

definition chooseSumByDifficulty :: "valid_sum list \<Rightarrow> rng \<Rightarrow> int option \<times> rng" where
  "chooseSumByDifficulty validSums rs =
     (let roll = shd rs;
          pool = difficulty_pool validSums roll;
          (chosen, rs') = randomChoice pool (stl rs)
      in (map_option fst chosen, rs'))"

text \<open>
  \<open>_generateFallbackTarget\<close>: \<open>draw_values\<close> is its loop that draws the values,
  \<open>plan_values\<close> its \<open>forEach\<close> that pushes value \<open>i\<close> onto the planned cubes of the column
  \<open>shuffledCols[i % 4]\<close>.
\<close>

fun draw_values :: "nat \<Rightarrow> int \<Rightarrow> rng \<Rightarrow> int list \<times> rng" where
  "draw_values 0 m rs = ([], rs)"
| "draw_values (Suc n) m rs =
     (let (v, rs1) = randomInt 1 m rs;
          (vs, rs2) = draw_values n m rs1
      in (v # vs, rs2))"

fun plan_values ::
  "nat \<Rightarrow> int list \<Rightarrow> nat list \<Rightarrow> (nat \<times> int list) list \<Rightarrow> (nat \<times> int list) list option" where
  "plan_values i [] shuffledCols planned = Some planned"
| "plan_values i (v # vs) shuffledCols planned =
     (let colIdx = shuffledCols ! (i mod 4)
      in case map_of planned colIdx of
           None \<Rightarrow> None
         | Some q \<Rightarrow> plan_values (Suc i) vs shuffledCols (AList.update colIdx (q @ [v]) planned))"

definition generateFallbackTarget :: "game \<Rightarrow> level_config \<Rightarrow> (int \<times> game) option" where
  "generateFallbackTarget g config =
     (let numCubes = (if shd (rnd g) < 0.5 then 2 else 3);
          (vals, rs1) = draw_values numCubes (maxNumber config) (stl (rnd g));
          target = sum_list vals;
          (shuffledCols, rs2) = shuffle [0, 1, 2, 3] rs1
      in case plan_values 0 vals shuffledCols (plannedCubes g) of
           None \<Rightarrow> None
         | Some planned \<Rightarrow>
             Some (clamp target MIN_TARGET (maxTarget config),
                   g\<lparr>plannedCubes := planned, rnd := rs2\<rparr>))"

text \<open>
  The values of the variables \<open>values\<close> and \<open>shuffledCols\<close> of \<open>_generateFallbackTarget\<close>.
\<close>

definition fallback_values :: "game \<Rightarrow> level_config \<Rightarrow> int list" where
  "fallback_values g config =
     fst (draw_values (if shd (rnd g) < 0.5 then 2 else 3) (maxNumber config) (stl (rnd g)))"

definition fallback_cols :: "game \<Rightarrow> level_config \<Rightarrow> nat list" where
  "fallback_cols g config =
     fst (shuffle [0, 1, 2, 3]
            (snd (draw_values (if shd (rnd g) < 0.5 then 2 else 3) (maxNumber config)
                    (stl (rnd g)))))"

text \<open>
  \<open>generateTarget()\<close>: \<open>possibleSums_of\<close> and \<open>validSums_of\<close> are the values of its
  variables \<open>possibleSums\<close> and \<open>validSums\<close>.
\<close>

definition possibleSums_of :: "game \<Rightarrow> sums_map" where
  "possibleSums_of g =
     findAllPossibleSums (getAllCubeValues g @ getUpcomingCubeValues g) MAX_CUBES_FOR_SUM"

definition validSums_of :: "game \<Rightarrow> level_config \<Rightarrow> valid_sum list" where
  "validSums_of g config =
     filter (\<lambda>s. fst s \<ge> MIN_TARGET \<and> fst s \<le> maxTarget config) (possibleSums_of g)"

definition generateTarget :: "game \<Rightarrow> (int \<times> game) option" where
  "generateTarget g =
     (case getLevelConfig (level g) of
        None \<Rightarrow> None
      | Some config \<Rightarrow>
          let possibleSums = possibleSums_of g;
              validSums = validSums_of g config
          in if possibleSums \<noteq> [] \<and> validSums \<noteq> []
             then (case chooseSumByDifficulty validSums (rnd g) of
                     (Some chosen, rs) \<Rightarrow> Some (chosen, g\<lparr>rnd := rs\<rparr>)
                   | (None, rs) \<Rightarrow> None)
             else generateFallbackTarget g config)"

text \<open>
  The statement \<open>this.targets.push(this.generator.generateTarget())\<close> of the first loop of
  \<open>start()\<close>.
\<close>

definition push_target :: "game \<Rightarrow> game option" where
  "push_target g =
     (case generateTarget g of
        None \<Rightarrow> None
      | Some (t, g') \<Rightarrow> Some (g'\<lparr>targets := targets g' @ [t]\<rparr>))"

subsection \<open>Spawning\<close>

text \<open>\<open>gameOver()\<close>: the game stops; the rest of it is sound, storage and display.\<close>

definition gameOver :: "game \<Rightarrow> game" where
  "gameOver g = g\<lparr>isPlaying := False, gameOverCalls := gameOverCalls g + 1\<rparr>"

definition checkGameOver :: "game \<Rightarrow> bool" where
  "checkGameOver g = list_all (\<lambda>col. \<not> length col < MAX_COLUMN_HEIGHT) (columns g)"

text \<open>
  The loop \<open>while (this.queues[col].length < QUEUE_SIZE)
  this.queues[col].push(this.generator.generateNextCubeValue(col))\<close>. It is defined
  once \<open>generateNextCubeValue\<close> is known to leave the queues alone.
\<close>

lemma generateBalancedCube_queues: "queues (snd (generateBalancedCube g config)) = queues g"
  by (simp add: generateBalancedCube_def Let_def split: prod.splits)

lemma generateHelpfulCube_queues:
  "generateHelpfulCube g config = Some (v, g') \<Longrightarrow> queues g' = queues g"
  unfolding generateHelpfulCube_def Let_def
  by (auto split: if_splits prod.splits option.splits)

lemma generateNextCubeValue_queues:
  "generateNextCubeValue g col = Some (v, g') \<Longrightarrow> queues g' = queues g"
  unfolding generateNextCubeValue_def generateAdaptiveCube_def Let_def
  using generateBalancedCube_queues [of g] generateHelpfulCube_queues [of g]
  by (auto split: option.splits list.splits if_splits) (metis snd_conv)+

function refill_queue :: "game \<Rightarrow> nat \<Rightarrow> game option" where
  "refill_queue g col =
     (if col < length (queues g)
      then (if length (queues g ! col) < QUEUE_SIZE
            then (case generateNextCubeValue g col of
                    None \<Rightarrow> None
                  | Some (v, g') \<Rightarrow>
                      refill_queue (g'\<lparr>queues := (queues g')[col := queues g' ! col @ [v]]\<rparr>) col)
            else Some g)
      else None)"
  by pat_completeness auto
termination
proof (relation "measure (\<lambda>(g, col). QUEUE_SIZE - length (queues g ! col))")
  show "wf (measure (\<lambda>(g, col). QUEUE_SIZE - length (queues g ! col)))" by simp
next
  fix g :: game and col :: nat and x2 :: "int \<times> game" and v :: int and g' :: game
  assume c: "col < length (queues g)" and l: "length (queues g ! col) < QUEUE_SIZE"
    and r: "generateNextCubeValue g col = Some x2" and x: "(v, g') = x2"
  from r x have "queues g' = queues g"
    using generateNextCubeValue_queues [of g col v g'] by simp
  with c l
  show "((g'\<lparr>queues := (queues g')[col := queues g' ! col @ [v]]\<rparr>, col), (g, col))
          \<in> measure (\<lambda>(g, col). QUEUE_SIZE - length (queues g ! col))"
    by simp
qed

text \<open>
  \<open>_spawnCubeInColumn(col)\<close>; \<open>dnow\<close> is \<open>Date.now()\<close> and \<open>pnow\<close> is \<open>performance.now()\<close>.
\<close>

definition spawnCubeInColumn :: "game \<Rightarrow> nat \<Rightarrow> int \<Rightarrow> real \<Rightarrow> game option" where
  "spawnCubeInColumn g col dnow pnow =
     (if col < length (queues g)
      then
        (case (if queues g ! col \<noteq> []
               then Some (hd (queues g ! col), g\<lparr>queues := (queues g)[col := tl (queues g ! col)]\<rparr>)
               else generateNextCubeValue g col) of
           None \<Rightarrow> None
         | Some (v, g1) \<Rightarrow>
             (case refill_queue g1 col of
                None \<Rightarrow> None
              | Some g2 \<Rightarrow>
                  if col < length (columns g2)
                  then
                    let r = length (columns g2 ! col);
                        cube = (createCube v col dnow (idCounter g2))
                                 \<lparr>row := int r, spawnTime := pnow, falling := True,
                                  fallFrom := int MAX_COLUMN_HEIGHT + 2, fallTo := int r,
                                  fallProgress := 0, bounceProgress := 1\<rparr>
                    in Some (g2\<lparr>columns := (columns g2)[col := columns g2 ! col @ [cube]],
                                idCounter := idCounter g2 + 1\<rparr>)
                  else None))
      else None)"

text \<open>
  The loop of \<open>_spawnNextCube\<close> over the column indices: the first column with room,
  \<open>Some None\<close> when the loop ends without one.
\<close>

fun first_free :: "cube list list \<Rightarrow> nat list \<Rightarrow> nat option option" where
  "first_free cols [] = Some None"
| "first_free cols (i # rest) =
     (if i < length cols
      then (if length (cols ! i) < MAX_COLUMN_HEIGHT then Some (Some i) else first_free cols rest)
      else None)"

definition spawnNextCube :: "game \<Rightarrow> int \<Rightarrow> real \<Rightarrow> game option" where
  "spawnNextCube g dnow pnow =
     (case chooseColumn g of
        None \<Rightarrow> None
      | Some (col, g1) \<Rightarrow>
          if 0 \<le> col \<and> nat col < length (columns g1)
          then
            if length (columns g1 ! nat col) \<ge> MAX_COLUMN_HEIGHT
            then
              if checkGameOver g1 then Some (gameOver g1)
              else (case first_free (columns g1) [0..<NUM_COLUMNS] of
                      None \<Rightarrow> None
                    | Some (Some i) \<Rightarrow> spawnCubeInColumn g1 i dnow pnow
                    | Some None \<Rightarrow> Some (gameOver g1))
            else spawnCubeInColumn g1 (nat col) dnow pnow
          else None)"

subsection \<open>Selection and matching\<close>

text \<open>
  \<open>_checkColumnClears(cubes)\<close>: \<open>count_columns\<close> is its first loop, which counts the given
  cubes by their \<open>column\<close> field, \<open>count_cleared\<close> its second loop, which counts the entries
  whose count is the length of that column. The order of the entries does not matter
  for the number returned.
\<close>

fun count_columns :: "game \<Rightarrow> cube_ref list \<Rightarrow> (nat \<times> nat) list \<Rightarrow> (nat \<times> nat) list option" where
  "count_columns g [] colCounts = Some colCounts"
| "count_columns g (r # rs) colCounts =
     (case deref g r of
        None \<Rightarrow> None
      | Some cube \<Rightarrow>
          count_columns g rs
            (AList.update (column cube)
               ((case map_of colCounts (column cube) of None \<Rightarrow> 0 | Some n \<Rightarrow> n) + 1)
               colCounts))"

fun count_cleared :: "game \<Rightarrow> (nat \<times> nat) list \<Rightarrow> nat option" where
  "count_cleared g [] = Some 0"
| "count_cleared g ((col, n) # rest) =
     (if col < length (columns g)
      then (case count_cleared g rest of
              None \<Rightarrow> None
            | Some cleared \<Rightarrow> Some (if n = length (columns g ! col) then cleared + 1 else cleared))
      else None)"

definition checkColumnClears :: "game \<Rightarrow> cube_ref list \<Rightarrow> nat option" where
  "checkColumnClears g cubes =
     (case count_columns g cubes [] of
        None \<Rightarrow> None
      | Some colCounts \<Rightarrow> count_cleared g colCounts)"

definition checkLevelUp :: "game \<Rightarrow> game" where
  "checkLevelUp g =
     (let needed = POINTS_PER_LEVEL * level g
      in if score g \<ge> needed \<and> level g < int (length LEVEL_CONFIG) - 1
         then g\<lparr>level := level g + 1\<rparr> else g)"

text \<open>
  The value of the variable \<open>multiplier\<close> of \<open>_onTargetMatch\<close>, from the combo count after
  its update, the target and the number of cleared columns; and the points of the match,
  \<open>Math.floor(target * cubes.length * multiplier)\<close>.
\<close>

definition match_multiplier :: "int \<Rightarrow> int \<Rightarrow> nat \<Rightarrow> real" where
  "match_multiplier combo target clearedColumns =
     (let m0 = 1;
          m1 = (if combo \<ge> 2 then m0 * (1 + (real_of_int combo - 1) * 0.5) else m0);
          m2 = (if target \<ge> 25 then m1 * 3 else if target \<ge> 20 then m1 * 2 else m1);
          m3 = (if clearedColumns > 0 then m2 * 2 else m2)
      in m3)"

definition match_points :: "int \<Rightarrow> nat \<Rightarrow> real \<Rightarrow> int" where
  "match_points target n multiplier = \<lfloor>real_of_int target * real n * multiplier\<rfloor>"

text \<open>The loop that marks the matched cubes: deselected, \<open>removing\<close>, progress 0.\<close>

fun mark_removing :: "cube_ref list \<Rightarrow> cube list list \<Rightarrow> cube list list" where
  "mark_removing [] cols = cols"
| "mark_removing ((c, i) # rest) cols =
     mark_removing rest
       (cols[c := (cols ! c)[i := (cols ! c ! i)\<lparr>selected := False, removing := True,
                                                  removeProgress := 0\<rparr>]])"

text \<open>
  \<open>_onTargetMatch(cubes)\<close>; \<open>now\<close> is \<open>performance.now()\<close>. Its only caller, \<open>_checkTarget\<close>,
  passes at least two cubes and has read a current target. With no cube, \<open>centerCube\<close> is
  \<open>undefined\<close> and the read of its \<open>column\<close> throws; with no target, the points would be
  computed from \<open>undefined\<close>, which the integers of this model do not hold: both are the
  result \<open>None\<close>.
\<close>

definition onTargetMatch :: "game \<Rightarrow> cube_ref list \<Rightarrow> real \<Rightarrow> game option" where
  "onTargetMatch g cubes now =
     (case targets g of
        [] \<Rightarrow> None
      | target # restTargets \<Rightarrow>
          (let g1 = g\<lparr>comboCount :=
                        (if now - lastMatchTime g < COMBO_TIMEOUT \<and> lastMatchTime g > 0
                         then comboCount g + 1 else 1),
                      lastMatchTime := now\<rparr>
           in (case checkColumnClears g1 cubes of
                 None \<Rightarrow> None
               | Some clearedColumns \<Rightarrow>
                   (let multiplier = match_multiplier (comboCount g1) target clearedColumns;
                        points = match_points target (length cubes) multiplier;
                        g2 = g1\<lparr>score := score g1 + points\<rparr>
                    in if cubes = [] then None
                       else
                         (let g3 = g2\<lparr>columns := mark_removing cubes (columns g2),
                                      targets := restTargets\<rparr>
                          in (case generateTarget g3 of
                                None \<Rightarrow> None
                              | Some (t, g4) \<Rightarrow>
                                  Some (checkLevelUp
                                          (g4\<lparr>targets := targets g4 @ [t],
                                              targetsCleared := targetsCleared g4 + 1\<rparr>))))))))"

definition checkTarget :: "game \<Rightarrow> real \<Rightarrow> game option" where
  "checkTarget g now =
     (if targets g = [] \<or> hd (targets g) = 0 then Some g
      else
        let currentTarget = hd (targets g);
            selectedSum = getSelectedSum g;
            selectedCubes = getSelectedCubes g
        in if selectedSum = currentTarget \<and> length selectedCubes \<ge> MIN_CUBES_FOR_SUM
           then onTargetMatch g selectedCubes now
           else Some g)"

text \<open>
  \<open>toggleCubeSelection(colIdx, rowIdx)\<close>: \<open>columns[colIdx][rowIdx]\<close> throws when there is no
  such column and is \<open>undefined\<close> when the column has no such position.
\<close>

definition toggleCubeSelection :: "game \<Rightarrow> nat \<Rightarrow> nat \<Rightarrow> real \<Rightarrow> game option" where
  "toggleCubeSelection g colIdx rowIdx now =
     (if colIdx < length (columns g)
      then
        if rowIdx < length (columns g ! colIdx)
        then
          let cube = columns g ! colIdx ! rowIdx
          in if removing cube then Some g
             else checkTarget
                    (g\<lparr>columns := (columns g)[colIdx :=
                          (columns g ! colIdx)[rowIdx := cube\<lparr>selected := \<not> selected cube\<rparr>]]\<rparr>)
                    now
        else Some g
      else None)"

subsection \<open>The tap handler (ui.js)\<close>

text \<open>
  The sizes that \<open>GameUI\<close> keeps for the field, in CSS pixels. \<open>_onResize\<close> sets
  \<open>cubeSize\<close> to at least 40, \<open>cubeGap\<close> to at least 4 and \<open>columnGap\<close> to at least 8.
\<close>

record ui_geometry =
  cubeSize :: real
  cubeGap :: real
  columnGap :: real
  fieldHeight :: real
  offsetX :: real
  offsetY :: real

text \<open>
  The values of the variables \<open>colIndex\<close> and \<open>clickRow\<close> of \<open>_handleTap(px, py)\<close>:
  \<open>Math.floor(relX / colW)\<close> and \<open>Math.floor((bottomY - relY) / rowH)\<close>.
\<close>

definition tap_colIndex :: "ui_geometry \<Rightarrow> real \<Rightarrow> int" where
  "tap_colIndex ui px = \<lfloor>(px - offsetX ui) / (cubeSize ui + columnGap ui)\<rfloor>"

definition tap_clickRow :: "ui_geometry \<Rightarrow> real \<Rightarrow> int" where
  "tap_clickRow ui py =
     \<lfloor>(fieldHeight ui - (py - offsetY ui)) / (cubeSize ui + cubeGap ui)\<rfloor>"

text \<open>
  \<open>_handleTap(px, py)\<close>, the only caller of \<open>toggleCubeSelection\<close>. A division by a zero
  \<open>colW\<close> or \<open>rowH\<close> gives an infinite value or \<open>NaN\<close> in the source; every comparison the
  handler then makes sends it to a \<open>return\<close> or to a read of \<open>undefined\<close> that ends the
  handler, so the state is left as it is.
\<close>

definition handleTap :: "ui_geometry \<Rightarrow> game \<Rightarrow> real \<Rightarrow> real \<Rightarrow> real \<Rightarrow> game option" where
  "handleTap ui g px py now =
     (let relX = px - offsetX ui;
          colW = cubeSize ui + columnGap ui;
          colIndex = tap_colIndex ui px
      in if colW = 0 then Some g
         else if colIndex < 0 \<or> colIndex \<ge> int NUM_COLUMNS then Some g
         else
           let inColX = relX - real_of_int colIndex * colW
           in if inColX > cubeSize ui then Some g
              else if \<not> nat colIndex < length (columns g) then Some g
              else
                let column = columns g ! nat colIndex
                in if length column = 0 then Some g
                   else
                     let rowH = cubeSize ui + cubeGap ui;
                         clickRow = tap_clickRow ui py
                     in if rowH = 0 then Some g
                        else if clickRow < 0 \<or> clickRow \<ge> int (length column) then Some g
                        else
                          let cube = column ! nat clickRow
                          in if \<not> removing cube \<and> \<not> falling cube
                             then toggleCubeSelection g (nat colIndex) (nat clickRow) now
                             else Some g)"

text \<open>
  \<open>reset()\<close> of the game, with \<open>generator.reset()\<close> inside it: every planned-cube queue
  becomes empty. The timers it cancels are not part of the state.
\<close>

definition reset :: "game \<Rightarrow> game" where
  "reset g =
     g\<lparr>columns := [[], [], [], []], queues := [[], [], [], []], targets := [],
       score := 0, level := 1, comboCount := 0, lastMatchTime := 0,
       targetsCleared := 0, shaking := False, pendingSpawnCol := -1,
       isPlaying := False, isPaused := False,
       plannedCubes := fold (\<lambda>i. AList.update i []) [0..<NUM_COLUMNS] (plannedCubes g)\<rparr>"

text \<open>The game right after \<open>new SumSumGame()\<close> and its first \<open>reset()\<close>.\<close>

definition new_game :: "rng \<Rightarrow> game" where
  "new_game rs =
     reset \<lparr>columns = [[], [], [], []], queues = [[], [], [], []], targets = [],
            score = 0, level = 1, isPlaying = False, isPaused = False,
            comboCount = 0, lastMatchTime = 0, targetsCleared = 0,
            shaking = False, pendingSpawnCol = -1,
            plannedCubes = fold (\<lambda>i. AList.update i []) [0..<NUM_COLUMNS] [],
            idCounter = 0, rnd = rs, gameOverCalls = 0\<rparr>"

section \<open>Column contiguity after settling\<close>

lemma length_settle_from: "length (settle_from i cs) = length cs"
  by (induction cs arbitrary: i) simp_all

lemma nth_settle_from:
  "k < length cs \<Longrightarrow> settle_from i cs ! k = settle_cube (i + k) (cs ! k)"
proof (induction cs arbitrary: i k)
  case Nil
  then show ?case by simp
next
  case (Cons c cs)
  show ?case
  proof (cases k)
    case 0
    then show ?thesis by simp
  next
    case (Suc m)
    with Cons.prems have "m < length cs" by simp
    from Cons.IH [OF this, of "Suc i"] Suc show ?thesis by simp
  qed
qed

lemma row_settle_cube: "row (settle_cube i c) = int i"
  by (simp add: settle_cube_def)

lemma settle_cube_moved:
  "row (settle_cube i c) \<noteq> row c \<Longrightarrow>
     falling (settle_cube i c) \<and> fallFrom (settle_cube i c) = row c \<and>
     fallTo (settle_cube i c) = int i \<and> fallProgress (settle_cube i c) = 0"
  by (simp add: settle_cube_def split: if_splits)

lemma settle_cube_kept: "row c = int i \<Longrightarrow> settle_cube i c = c"
  by (simp add: settle_cube_def)

lemma map_row_settle_from:
  "map row (settle_from i cs) = map int [i..<i + length cs]"
proof (rule nth_equalityI)
  show "length (map row (settle_from i cs)) = length (map int [i..<i + length cs])"
    by (simp add: length_settle_from)
next
  fix k assume "k < length (map row (settle_from i cs))"
  then have k: "k < length cs" by (simp add: length_settle_from)
  then show "map row (settle_from i cs) ! k = map int [i..<i + length cs] ! k"
    by (simp add: length_settle_from nth_settle_from row_settle_cube)
qed

text \<open>
  Claim C8. After \<open>settleColumn\<close> has run on a column of the board, the \<open>row\<close> fields of
  the column's cubes are \<open>0, 1, ..., length - 1\<close> in array order (the column keeps its
  length), and every cube whose \<open>row\<close> changed is marked \<open>falling\<close>, with \<open>fallFrom\<close> its
  old row and \<open>fallTo\<close> its new row; a cube whose row did not change is left as it was.
\<close>

theorem settleColumn_contiguous:
  assumes "colIdx < length (columns g)"
  shows "\<exists>g'. settleColumn g colIdx = Some g' \<and>
           length (columns g' ! colIdx) = length (columns g ! colIdx) \<and>
           map row (columns g' ! colIdx) = map int [0..<length (columns g ! colIdx)] \<and>
           (\<forall>k < length (columns g ! colIdx).
              (row (columns g' ! colIdx ! k) \<noteq> row (columns g ! colIdx ! k) \<longrightarrow>
                 falling (columns g' ! colIdx ! k) \<and>
                 fallFrom (columns g' ! colIdx ! k) = row (columns g ! colIdx ! k) \<and>
                 fallTo (columns g' ! colIdx ! k) = row (columns g' ! colIdx ! k)) \<and>
              (row (columns g' ! colIdx ! k) = row (columns g ! colIdx ! k) \<longrightarrow>
                 columns g' ! colIdx ! k = columns g ! colIdx ! k))"
proof -
  let ?old = "columns g ! colIdx"
  let ?new = "settle_from 0 ?old"
  let ?g' = "g\<lparr>columns := (columns g)[colIdx := ?new]\<rparr>"
  have ret: "settleColumn g colIdx = Some ?g'"
    using assms by (simp add: settleColumn_def)
  have col: "columns ?g' ! colIdx = ?new"
    using assms by simp
  have len: "length ?new = length ?old"
    by (rule length_settle_from)
  have rows: "map row ?new = map int [0..<length ?old]"
    using map_row_settle_from [of 0 ?old] by simp
  have each: "(row (?new ! k) \<noteq> row (?old ! k) \<longrightarrow>
                 falling (?new ! k) \<and> fallFrom (?new ! k) = row (?old ! k) \<and>
                 fallTo (?new ! k) = row (?new ! k)) \<and>
              (row (?new ! k) = row (?old ! k) \<longrightarrow> ?new ! k = ?old ! k)"
    if "k < length ?old" for k
  proof -
    have eq: "?new ! k = settle_cube k (?old ! k)"
      using nth_settle_from [OF that, of 0] by simp
    have moved: "row (settle_cube k (?old ! k)) \<noteq> row (?old ! k) \<longrightarrow>
                 falling (settle_cube k (?old ! k)) \<and>
                 fallFrom (settle_cube k (?old ! k)) = row (?old ! k) \<and>
                 fallTo (settle_cube k (?old ! k)) = row (settle_cube k (?old ! k))"
      using settle_cube_moved [of k "?old ! k"] by (simp add: row_settle_cube)
    have kept: "row (settle_cube k (?old ! k)) = row (?old ! k) \<longrightarrow>
                settle_cube k (?old ! k) = ?old ! k"
      using settle_cube_kept [of "?old ! k" k] by (simp add: row_settle_cube)
    show ?thesis
      unfolding eq using moved kept by (rule conjI)
  qed
  show ?thesis
  proof (intro exI conjI)
    show "settleColumn g colIdx = Some ?g'" by (rule ret)
    show "length (columns ?g' ! colIdx) = length ?old"
      unfolding col by (rule len)
    show "map row (columns ?g' ! colIdx) = map int [0..<length ?old]"
      unfolding col by (rule rows)
    show "\<forall>k < length ?old.
           (row (columns ?g' ! colIdx ! k) \<noteq> row (?old ! k) \<longrightarrow>
              falling (columns ?g' ! colIdx ! k) \<and>
              fallFrom (columns ?g' ! colIdx ! k) = row (?old ! k) \<and>
              fallTo (columns ?g' ! colIdx ! k) = row (columns ?g' ! colIdx ! k)) \<and>
           (row (columns ?g' ! colIdx ! k) = row (?old ! k) \<longrightarrow>
              columns ?g' ! colIdx ! k = ?old ! k)"
    proof (intro allI impI)
      fix k assume "k < length ?old"
      from each [OF this]
      show "(row (columns ?g' ! colIdx ! k) \<noteq> row (?old ! k) \<longrightarrow>
              falling (columns ?g' ! colIdx ! k) \<and>
              fallFrom (columns ?g' ! colIdx ! k) = row (?old ! k) \<and>
              fallTo (columns ?g' ! colIdx ! k) = row (columns ?g' ! colIdx ! k)) \<and>
           (row (columns ?g' ! colIdx ! k) = row (?old ! k) \<longrightarrow>
              columns ?g' ! colIdx ! k = ?old ! k)"
        unfolding col .
    qed
  qed
qed

text \<open>
  A board for the example: the cube that rested on row 1 of column 0 was removed, so the
  cube above it is still on row 2.
\<close>

definition settle_example :: game where
  "settle_example =
     (new_game (sconst 0))
       \<lparr>columns := [[(createCube 3 0 0 0)\<lparr>row := 0\<rparr>, (createCube 5 0 0 2)\<lparr>row := 2\<rparr>],
                    [], [], []]\<rparr>"

theorem settleColumn_contiguous_witness:
  "0 < length (columns settle_example) \<and>
   (\<exists>g'. settleColumn settle_example 0 = Some g' \<and>
      map row (columns g' ! 0) = [0, 1] \<and>
      falling (columns g' ! 0 ! 1) \<and> fallFrom (columns g' ! 0 ! 1) = 2 \<and>
      fallTo (columns g' ! 0 ! 1) = 1 \<and>
      columns g' ! 0 ! 0 = columns settle_example ! 0 ! 0)"
proof -
  have h: "0 < length (columns settle_example)"
    by (simp add: settle_example_def)
  have c: "columns settle_example ! 0 =
             [(createCube 3 0 0 0)\<lparr>row := 0\<rparr>, (createCube 5 0 0 2)\<lparr>row := 2\<rparr>]"
    by (simp add: settle_example_def)
  have u: "[0..<length (columns settle_example ! 0)] = [0, 1]"
    unfolding c by (simp add: upt_rec)
  from settleColumn_contiguous [OF h] obtain g' where
    g': "settleColumn settle_example 0 = Some g'"
    and rows: "map row (columns g' ! 0) = map int [0..<length (columns settle_example ! 0)]"
    and each: "\<forall>k < length (columns settle_example ! 0).
       (row (columns g' ! 0 ! k) \<noteq> row (columns settle_example ! 0 ! k) \<longrightarrow>
          falling (columns g' ! 0 ! k) \<and>
          fallFrom (columns g' ! 0 ! k) = row (columns settle_example ! 0 ! k) \<and>
          fallTo (columns g' ! 0 ! k) = row (columns g' ! 0 ! k)) \<and>
       (row (columns g' ! 0 ! k) = row (columns settle_example ! 0 ! k) \<longrightarrow>
          columns g' ! 0 ! k = columns settle_example ! 0 ! k)"
    by blast
  have r: "map row (columns g' ! 0) = [0, 1]"
    using rows unfolding u by simp
  then have r0: "row (columns g' ! 0 ! 0) = 0" and r1: "row (columns g' ! 0 ! 1) = 1"
    by (simp_all add: list_eq_iff_nth_eq)
  have l0: "0 < length (columns settle_example ! 0)"
    and l1: "1 < length (columns settle_example ! 0)"
    unfolding c by simp_all
  have k0: "columns g' ! 0 ! 0 = columns settle_example ! 0 ! 0"
    using each [rule_format, OF l0] r0 unfolding c by (simp add: createCube_def)
  have k1: "falling (columns g' ! 0 ! 1) \<and> fallFrom (columns g' ! 0 ! 1) = 2 \<and>
            fallTo (columns g' ! 0 ! 1) = 1"
    using each [rule_format, OF l1] r1 unfolding c by (simp add: createCube_def)
  from g' r k0 k1 show ?thesis
    by (intro conjI exI [of _ g'] h) (simp_all only:)
qed

section \<open>Combination search: exactly the index combinations of 2 to 5 cubes\<close>

text \<open>
  The records that \<open>search\<close> makes, in the order in which it makes them: \<open>emitted\<close> follows
  the recursion of \<open>search\<close> and lists the pairs (sum, indices) instead of storing them.
\<close>

function emitted ::
    "int list \<Rightarrow> nat \<Rightarrow> nat \<Rightarrow> int \<Rightarrow> nat \<Rightarrow> nat list \<Rightarrow> (int \<times> nat list) list"
  and emitted_for ::
    "int list \<Rightarrow> nat \<Rightarrow> nat \<Rightarrow> int \<Rightarrow> nat \<Rightarrow> nat list \<Rightarrow> (int \<times> nat list) list"
where
  "emitted vs mx start s count used =
     (if count > mx then []
      else (if count \<ge> MIN_CUBES_FOR_SUM then [(s, used)] else [])
           @ emitted_for vs mx start s count used)"
| "emitted_for vs mx i s count used =
     (if i < length vs
      then emitted vs mx (i + 1) (s + vs ! i) (count + 1) (used @ [i])
           @ emitted_for vs mx (i + 1) s count used
      else [])"
  by pat_completeness auto
termination
  by (relation "measure (\<lambda>x. case x of
          Inl (vs, mx, i, rest) \<Rightarrow> 2 * (length vs - i) + 1
        | Inr (vs, mx, i, rest) \<Rightarrow> 2 * (length vs - i))") auto

text \<open>Storing a list of records one after the other.\<close>

definition record_all :: "(int \<times> nat list) list \<Rightarrow> sums_map \<Rightarrow> sums_map" where
  "record_all es results = fold (\<lambda>e r. record_combo r (fst e) (snd e)) es results"

lemma record_all_append: "record_all (xs @ ys) r = record_all ys (record_all xs r)"
  by (simp add: record_all_def)

lemma record_all_Nil: "record_all [] r = r"
  by (simp add: record_all_def)

lemma record_all_single: "record_all [(s, u)] r = record_combo r s u"
  by (simp add: record_all_def)

declare search.simps [simp del] search_for.simps [simp del]
declare emitted.simps [simp del] emitted_for.simps [simp del]

lemma search_record_all:
  "search vs mx start s count used r = record_all (emitted vs mx start s count used) r"
  "search_for vs mx i s count used r = record_all (emitted_for vs mx i s count used) r"
proof (induction vs mx start s count used r and vs mx i s count used r
       rule: search_search_for.induct)
  case (1 vs mx start s count used r)
  show ?case
  proof (cases "count > mx")
    case True
    then show ?thesis
      by (simp add: search.simps [of vs mx start s count used r]
            emitted.simps [of vs mx start s count used] record_all_Nil)
  next
    case False
    then show ?thesis
      using "1.IH" [OF False]
      by (simp add: search.simps [of vs mx start s count used r]
            emitted.simps [of vs mx start s count used]
            record_all_Nil record_all_single record_all_append)
  qed
next
  case (2 vs mx i s count used r)
  show ?case
  proof (cases "i < length vs")
    case True
    then show ?thesis
      using "2.IH"
      by (simp add: search_for.simps [of vs mx i s count used r]
            emitted_for.simps [of vs mx i s count used] record_all_append)
  next
    case False
    then show ?thesis
      by (simp add: search_for.simps [of vs mx i s count used r]
            emitted_for.simps [of vs mx i s count used] record_all_Nil)
  qed
qed


text \<open>
  \<open>ext_ok n lo ext\<close>: \<open>ext\<close> is a strictly increasing list of positions from \<open>lo\<close> up to
  \<open>n - 1\<close>; \<open>reaches\<close>: the record \<open>e\<close> is what the search stores after it has extended
  the indices \<open>used\<close> (of sum \<open>s\<close>) by \<open>ext\<close>.
\<close>

definition ext_ok :: "nat \<Rightarrow> nat \<Rightarrow> nat list \<Rightarrow> bool" where
  "ext_ok n lo ext = (sorted_wrt (<) ext \<and> (\<forall>j\<in>set ext. lo \<le> j \<and> j < n))"

definition reaches ::
  "int list \<Rightarrow> nat \<Rightarrow> int \<Rightarrow> nat \<Rightarrow> nat list \<Rightarrow> nat list \<Rightarrow> int \<times> nat list \<Rightarrow> bool" where
  "reaches vs mx s count used ext e =
     (MIN_CUBES_FOR_SUM \<le> count + length ext \<and> count + length ext \<le> mx \<and>
      snd e = used @ ext \<and> fst e = s + (\<Sum>j\<leftarrow>ext. vs ! j))"

lemma ext_ok_Nil: "ext_ok n lo []"
  by (simp add: ext_ok_def)

lemma ext_ok_Cons: "ext_ok n lo (j # e) \<longleftrightarrow> lo \<le> j \<and> j < n \<and> ext_ok n (Suc j) e"
  by (auto simp: ext_ok_def)

lemma ext_ok_Suc: "ext_ok n (Suc lo) e \<Longrightarrow> ext_ok n lo e"
  by (auto simp: ext_ok_def)

lemma ext_ok_split:
  "ext \<noteq> [] \<and> ext_ok n i ext \<longleftrightarrow>
     (\<exists>e'. ext = i # e' \<and> i < n \<and> ext_ok n (Suc i) e') \<or> (ext \<noteq> [] \<and> ext_ok n (Suc i) ext)"
proof (cases ext)
  case Nil
  then show ?thesis by simp
next
  case (Cons j e)
  show ?thesis
  proof (cases "j = i")
    case True
    then show ?thesis using Cons by (auto simp: ext_ok_Cons)
  next
    case False
    then show ?thesis using Cons by (auto simp: ext_ok_Cons)
  qed
qed

lemma ext_ok_beyond: "ext \<noteq> [] \<Longrightarrow> ext_ok n i ext \<Longrightarrow> i < n"
  by (cases ext) (auto simp: ext_ok_Cons)

lemma reaches_Cons:
  "reaches vs mx (s + vs ! i) (Suc count) (used @ [i]) e' x = reaches vs mx s count used (i # e') x"
  by (auto simp: reaches_def)

lemma reaches_Nil:
  "reaches vs mx s count used [] x \<longleftrightarrow>
     MIN_CUBES_FOR_SUM \<le> count \<and> count \<le> mx \<and> x = (s, used)"
  by (cases x) (auto simp: reaches_def)

lemma emitted_mem:
  "x \<in> set (emitted vs mx start s count used) \<longleftrightarrow>
     (\<exists>ext. ext_ok (length vs) start ext \<and> reaches vs mx s count used ext x)"
  "x \<in> set (emitted_for vs mx i s count used) \<longleftrightarrow>
     (\<exists>ext. (ext \<noteq> [] \<and> ext_ok (length vs) i ext) \<and> reaches vs mx s count used ext x)"
proof (induction vs mx start s count used and vs mx i s count used
       arbitrary: x and x rule: emitted_emitted_for.induct)
  case (1 vs mx start s count used)
  show ?case
  proof (cases "count > mx")
    case True
    then show ?thesis
      by (simp add: emitted.simps [of vs mx start s count used] reaches_def)
  next
    case False
    have "(\<exists>ext. ext_ok (length vs) start ext \<and> reaches vs mx s count used ext x) \<longleftrightarrow>
          reaches vs mx s count used [] x \<or>
          (\<exists>ext. (ext \<noteq> [] \<and> ext_ok (length vs) start ext) \<and> reaches vs mx s count used ext x)"
      using ext_ok_Nil by (metis (full_types))
    then show ?thesis
      using False "1.IH" [OF False, of x]
      by (simp add: emitted.simps [of vs mx start s count used] reaches_Nil) blast
  qed
next
  case (2 vs mx i s count used)
  show ?case
  proof (cases "i < length vs")
    case True
    have "(\<exists>ext. (ext \<noteq> [] \<and> ext_ok (length vs) i ext) \<and> reaches vs mx s count used ext x) \<longleftrightarrow>
          (\<exists>e'. ext_ok (length vs) (Suc i) e' \<and> reaches vs mx s count used (i # e') x) \<or>
          (\<exists>ext. (ext \<noteq> [] \<and> ext_ok (length vs) (Suc i) ext) \<and> reaches vs mx s count used ext x)"
      unfolding ext_ok_split [of _ "length vs" i] using True by blast
    then show ?thesis
      using True "2.IH"(1) [OF True, of x] "2.IH"(2) [OF True, of x]
      by (simp add: emitted_for.simps [of vs mx i s count used] reaches_Cons)
  next
    case False
    then show ?thesis
      using ext_ok_beyond [of _ "length vs" i]
      by (auto simp: emitted_for.simps [of vs mx i s count used])
  qed
qed


lemma emitted_distinct:
  "distinct (map snd (emitted vs mx start s count used))"
  "distinct (map snd (emitted_for vs mx i s count used))"
proof (induction vs mx start s count used and vs mx i s count used
       rule: emitted_emitted_for.induct)
  case (1 vs mx start s count used)
  show ?case
  proof (cases "count > mx")
    case True
    then show ?thesis by (simp add: emitted.simps [of vs mx start s count used])
  next
    case False
    have "used \<notin> snd ` set (emitted_for vs mx start s count used)"
    proof
      assume "used \<in> snd ` set (emitted_for vs mx start s count used)"
      then obtain x where "x \<in> set (emitted_for vs mx start s count used)" "snd x = used"
        by auto
      then show False by (auto simp: emitted_mem(2) reaches_def)
    qed
    then show ?thesis
      using False "1.IH" [OF False]
      by (simp add: emitted.simps [of vs mx start s count used])
  qed
next
  case (2 vs mx i s count used)
  show ?case
  proof (cases "i < length vs")
    case True
    have "snd ` set (emitted vs mx (i + 1) (s + vs ! i) (count + 1) (used @ [i])) \<inter>
          snd ` set (emitted_for vs mx (i + 1) s count used) = {}"
    proof (rule ccontr)
      assume "\<not> ?thesis"
      then obtain x y where x: "x \<in> set (emitted vs mx (i + 1) (s + vs ! i) (count + 1) (used @ [i]))"
        and y: "y \<in> set (emitted_for vs mx (i + 1) s count used)" and xy: "snd x = snd y"
        by auto
      from x obtain e1 where e1: "snd x = (used @ [i]) @ e1"
        by (auto simp: emitted_mem(1) reaches_def)
      from y obtain e2 where e2: "e2 \<noteq> []" "ext_ok (length vs) (i + 1) e2" "snd y = used @ e2"
        by (auto simp: emitted_mem(2) reaches_def)
      from e1 e2(3) xy have "i # e1 = e2" by simp
      with e2(2) show False by (auto simp: ext_ok_Cons)
    qed
    then show ?thesis
      using True "2.IH"
      by (simp add: emitted_for.simps [of vs mx i s count used])
  next
    case False
    then show ?thesis by (simp add: emitted_for.simps [of vs mx i s count used])
  qed
qed

text \<open>The combinations stored under a sum, \<open>[]\<close> when the sum is not a key.\<close>

definition combos_at :: "sums_map \<Rightarrow> int \<Rightarrow> nat list list" where
  "combos_at m s = (case map_of m s of None \<Rightarrow> [] | Some cs \<Rightarrow> cs)"

lemma map_of_record_combo:
  "map_of (record_combo m s u) s' =
     (if s' = s then Some (combos_at m s @ [u]) else map_of m s')"
  by (auto simp: record_combo_def combos_at_def update_conv' Let_def split: option.splits)

lemma distinct_record_combo:
  "distinct (map fst m) \<Longrightarrow> distinct (map fst (record_combo m s u))"
  by (auto simp: record_combo_def Let_def distinct_update split: option.splits)

lemma distinct_record_all:
  "distinct (map fst m) \<Longrightarrow> distinct (map fst (record_all es m))"
  by (induction es arbitrary: m) (simp_all add: record_all_def distinct_record_combo)

lemma map_of_record_all:
  "map_of (record_all es m) s =
     (if filter (\<lambda>e. fst e = s) es = [] then map_of m s
      else Some (combos_at m s @ map snd (filter (\<lambda>e. fst e = s) es)))"
proof (induction es arbitrary: m)
  case Nil
  show ?case by (simp add: record_all_def)
next
  case (Cons e es)
  have step: "record_all (e # es) m = record_all es (record_combo m (fst e) (snd e))"
    by (simp add: record_all_def)
  show ?case
    unfolding step Cons.IH
    by (auto simp: map_of_record_combo combos_at_def)
qed


text \<open>
  The index combinations of the claim, in its words: a strictly increasing list of positions
  of \<open>vs\<close>, of at least \<open>MIN_CUBES_FOR_SUM = 2\<close> and at most \<open>maxCount\<close> positions, whose
  values add up to \<open>s\<close>.
\<close>

definition is_index_combo :: "int list \<Rightarrow> nat \<Rightarrow> int \<Rightarrow> nat list \<Rightarrow> bool" where
  "is_index_combo vs maxCount s c =
     (sorted_wrt (<) c \<and> (\<forall>i\<in>set c. i < length vs) \<and>
      MIN_CUBES_FOR_SUM \<le> length c \<and> length c \<le> maxCount \<and>
      (\<Sum>i\<leftarrow>c. vs ! i) = s)"

lemma emitted_top:
  "x \<in> set (emitted vs mx 0 0 0 []) \<longleftrightarrow> is_index_combo vs mx (fst x) (snd x)"
  unfolding emitted_mem(1)
  by (auto simp: reaches_def ext_ok_def is_index_combo_def)

lemma findAllPossibleSums_record_all:
  "findAllPossibleSums vs mx = record_all (emitted vs mx 0 0 0 []) []"
  by (simp add: findAllPossibleSums_def search_record_all(1))

lemma combos_of_sum:
  "set (map snd (filter (\<lambda>e. fst e = s) (emitted vs mx 0 0 0 []))) =
     {c. is_index_combo vs mx s c}"
proof (rule set_eqI)
  fix c
  have "c \<in> set (map snd (filter (\<lambda>e. fst e = s) (emitted vs mx 0 0 0 []))) \<longleftrightarrow>
        (s, c) \<in> set (emitted vs mx 0 0 0 [])"
    by (auto simp: image_iff)
  then show "c \<in> set (map snd (filter (\<lambda>e. fst e = s) (emitted vs mx 0 0 0 []))) \<longleftrightarrow>
        c \<in> {c. is_index_combo vs mx s c}"
    by (simp add: emitted_top)
qed

lemma findAllPossibleSums_keys: "distinct (map fst (findAllPossibleSums vs mx))"
  unfolding findAllPossibleSums_record_all by (rule distinct_record_all) simp

lemma findAllPossibleSums_lookup:
  "map_of (findAllPossibleSums vs mx) s =
     (if filter (\<lambda>e. fst e = s) (emitted vs mx 0 0 0 []) = [] then None
      else Some (map snd (filter (\<lambda>e. fst e = s) (emitted vs mx 0 0 0 []))))"
  unfolding findAllPossibleSums_record_all map_of_record_all
  by (simp add: combos_at_def)

lemma findAllPossibleSums_general:
  "case map_of (findAllPossibleSums vs mx) s of
     None \<Rightarrow> {c. is_index_combo vs mx s c} = {}
   | Some cs \<Rightarrow> cs \<noteq> [] \<and> distinct cs \<and> set cs = {c. is_index_combo vs mx s c}"
proof -
  let ?f = "filter (\<lambda>e. fst e = s) (emitted vs mx 0 0 0 [])"
  show ?thesis
  proof (cases "?f = []")
    case True
    then have "map_of (findAllPossibleSums vs mx) s = None"
      by (simp add: findAllPossibleSums_lookup)
    moreover have "{c. is_index_combo vs mx s c} = {}"
      using combos_of_sum [of s vs mx] True by simp
    ultimately show ?thesis by simp
  next
    case False
    then have "map_of (findAllPossibleSums vs mx) s = Some (map snd ?f)"
      by (simp add: findAllPossibleSums_lookup)
    moreover have "map snd ?f \<noteq> []" using False by simp
    moreover have "distinct (map snd ?f)"
      by (rule distinct_map_filter) (rule emitted_distinct(1))
    moreover note combos_of_sum [of s vs mx]
    ultimately show ?thesis by simp
  qed
qed

text \<open>
  Claim C2. For every list of values, \<open>findAllPossibleSums\<close> with at most 5 cubes returns
  a map in which every sum is a key once, and the combinations listed under a sum \<open>s\<close> are
  exactly the strictly increasing index lists of 2 to 5 positions whose values add up to
  \<open>s\<close>, each listed once; a sum that no such combination gives is not a key.
\<close>

theorem findAllPossibleSums_exact:
  "distinct (map fst (findAllPossibleSums vs MAX_CUBES_FOR_SUM)) \<and>
   (case map_of (findAllPossibleSums vs MAX_CUBES_FOR_SUM) s of
      None \<Rightarrow> {c. is_index_combo vs 5 s c} = {}
    | Some cs \<Rightarrow> cs \<noteq> [] \<and> distinct cs \<and> set cs = {c. is_index_combo vs 5 s c} \<and>
        (\<forall>c\<in>set cs. sorted_wrt (<) c \<and> 2 \<le> length c \<and> length c \<le> 5))"
proof -
  have five: "MAX_CUBES_FOR_SUM = 5" by (simp add: MAX_CUBES_FOR_SUM_def)
  have shape: "sorted_wrt (<) c \<and> 2 \<le> length c \<and> length c \<le> 5"
    if "is_index_combo vs 5 s c" for c
    using that by (simp add: is_index_combo_def MIN_CUBES_FOR_SUM_def)
  have "case map_of (findAllPossibleSums vs 5) s of
      None \<Rightarrow> {c. is_index_combo vs 5 s c} = {}
    | Some cs \<Rightarrow> cs \<noteq> [] \<and> distinct cs \<and> set cs = {c. is_index_combo vs 5 s c} \<and>
        (\<forall>c\<in>set cs. sorted_wrt (<) c \<and> 2 \<le> length c \<and> length c \<le> 5)"
  proof (cases "map_of (findAllPossibleSums vs 5) s")
    case None
    with findAllPossibleSums_general [of vs 5 s] show ?thesis by simp
  next
    case (Some cs)
    with findAllPossibleSums_general [of vs 5 s]
    have cs: "cs \<noteq> []" "distinct cs" "set cs = {c. is_index_combo vs 5 s c}"
      by simp_all
    from cs(3) shape have "\<forall>c\<in>set cs. sorted_wrt (<) c \<and> 2 \<le> length c \<and> length c \<le> 5"
      by blast
    with cs Some show ?thesis by simp
  qed
  with findAllPossibleSums_keys [of vs 5] show ?thesis
    unfolding five by (rule conjI)
qed

theorem findAllPossibleSums_exact_witness:
  "map_of (findAllPossibleSums [2, 3, 5, 7] MAX_CUBES_FOR_SUM) 10 = Some [[0, 1, 2], [1, 3]] \<and>
   {c. is_index_combo [2, 3, 5, 7] 5 10 c} = {[0, 1, 2], [1, 3]}"
proof -
  have m: "map_of (findAllPossibleSums [2, 3, 5, 7] MAX_CUBES_FOR_SUM) 10 = Some [[0, 1, 2], [1, 3]]"
    by (simp add: findAllPossibleSums_def MAX_CUBES_FOR_SUM_def MIN_CUBES_FOR_SUM_def
          search.simps search_for.simps record_combo_def)
  from findAllPossibleSums_exact [of "[2, 3, 5, 7]" 10] show ?thesis
    unfolding m by simp
qed

section \<open>Random draws, the level table and the shuffle\<close>

lemma unit_draws_shd: "unit_draws rs \<Longrightarrow> 0 \<le> shd rs \<and> shd rs < 1"
  unfolding unit_draws_def by (metis snth.simps(1))

lemma unit_draws_stl: "unit_draws rs \<Longrightarrow> unit_draws (stl rs)"
  unfolding unit_draws_def by (metis snth.simps(2))

lemma floor_scaled_draw:
  assumes "0 \<le> r" "r < 1" "0 < n"
  shows "0 \<le> \<lfloor>r * real_of_int n\<rfloor> \<and> \<lfloor>r * real_of_int n\<rfloor> < n"
proof -
  have "0 \<le> r * real_of_int n" using assms by simp
  moreover have "r * real_of_int n < real_of_int n" using assms by simp
  ultimately show ?thesis by (simp add: floor_less_iff)
qed

lemma randomInt_range:
  assumes "unit_draws rs" "lo \<le> hi"
  shows "lo \<le> fst (randomInt lo hi rs) \<and> fst (randomInt lo hi rs) \<le> hi"
    and "unit_draws (snd (randomInt lo hi rs))"
proof -
  from assms(2) have "0 < hi - lo + 1" by simp
  from floor_scaled_draw [OF _ _ this, of "shd rs"] unit_draws_shd [OF assms(1)]
  show "lo \<le> fst (randomInt lo hi rs) \<and> fst (randomInt lo hi rs) \<le> hi"
    by (simp add: randomInt_def)
  show "unit_draws (snd (randomInt lo hi rs))"
    using unit_draws_stl [OF assms(1)] by (simp add: randomInt_def)
qed

lemma randomChoice_member:
  assumes "unit_draws rs" "arr \<noteq> []"
  shows "\<exists>x\<in>set arr. fst (randomChoice arr rs) = Some x"
    and "snd (randomChoice arr rs) = stl rs"
proof -
  have "0 < int (length arr)" using assms(2) by simp
  from floor_scaled_draw [OF _ _ this, of "shd rs"] unit_draws_shd [OF assms(1)]
  have "0 \<le> \<lfloor>shd rs * real (length arr)\<rfloor> \<and> \<lfloor>shd rs * real (length arr)\<rfloor> < int (length arr)"
    by simp
  then have k: "0 \<le> \<lfloor>shd rs * real (length arr)\<rfloor>" "nat \<lfloor>shd rs * real (length arr)\<rfloor> < length arr"
    by linarith+
  then show "\<exists>x\<in>set arr. fst (randomChoice arr rs) = Some x"
    by (simp add: randomChoice_def Let_def)
  show "snd (randomChoice arr rs) = stl rs"
    by (simp add: randomChoice_def Let_def)
qed

lemma getLevelConfig_Some:
  "\<exists>config. getLevelConfig lvl = Some config \<and> 6 \<le> maxNumber config \<and>
            15 \<le> maxTarget config"
proof -
  let ?n = "nat (clamp lvl 1 10)"
  have n: "1 \<le> ?n \<and> ?n \<le> 10" by (auto simp: clamp_def max_def min_def)
  have all: "\<forall>x\<in>set (tl LEVEL_CONFIG).
               \<exists>config. x = Some config \<and> 6 \<le> maxNumber config \<and> 15 \<le> maxTarget config"
    by (simp add: LEVEL_CONFIG_def)
  have len: "length (tl LEVEL_CONFIG) = 10" by (simp add: LEVEL_CONFIG_def)
  from n obtain m where m: "?n = Suc m" "m < 10"
    by (cases ?n) auto
  have "tl LEVEL_CONFIG ! m = LEVEL_CONFIG ! Suc m"
    using m(2) len by (simp add: nth_tl)
  moreover have "tl LEVEL_CONFIG ! m \<in> set (tl LEVEL_CONFIG)"
    using m(2) len by (intro nth_mem) simp
  ultimately have "\<exists>config. LEVEL_CONFIG ! ?n = Some config \<and> 6 \<le> maxNumber config \<and>
            15 \<le> maxTarget config"
    using all unfolding m(1) by metis
  moreover have "getLevelConfig lvl = LEVEL_CONFIG ! ?n"
    by (simp add: getLevelConfig_def LEVEL_CONFIG_def)
  ultimately show ?thesis by simp
qed

lemma shuffle_from_set:
  assumes "unit_draws rs" "k < length a"
  shows "set (fst (shuffle_from k a rs)) = set a \<and>
         length (fst (shuffle_from k a rs)) = length a \<and>
         distinct (fst (shuffle_from k a rs)) = distinct a \<and>
         unit_draws (snd (shuffle_from k a rs))"
  using assms
proof (induction k arbitrary: a rs)
  case 0
  then show ?case by simp
next
  case (Suc k)
  let ?j = "nat \<lfloor>shd rs * real (Suc k + 1)\<rfloor>"
  let ?a = "a[Suc k := a ! ?j, ?j := a ! Suc k]"
  have "0 < int (Suc k + 1)" by simp
  from floor_scaled_draw [OF _ _ this, of "shd rs"] unit_draws_shd [OF Suc.prems(1)]
  have "?j < Suc k + 1" by simp
  with Suc.prems(2) have j: "?j < length a" by simp
  have s: "set ?a = set a"
    using j Suc.prems(2) by (rule_tac set_swap) simp_all
  have d: "distinct ?a = distinct a"
    using j Suc.prems(2) by (rule_tac distinct_swap) simp_all
  have l: "length ?a = length a" by simp
  have "k < length ?a" using Suc.prems(2) by simp
  from Suc.IH [OF unit_draws_stl [OF Suc.prems(1)] this] s d l
  show ?case by (simp add: Let_def)
qed

lemma shuffle_cols:
  assumes "unit_draws rs"
  shows "set (fst (shuffle [0, 1, 2, 3::nat] rs)) = {0, 1, 2, 3} \<and>
         length (fst (shuffle [0, 1, 2, 3::nat] rs)) = 4 \<and>
         distinct (fst (shuffle [0, 1, 2, 3::nat] rs)) \<and>
         unit_draws (snd (shuffle [0, 1, 2, 3::nat] rs))"
proof -
  have three: "length [0, 1, 2, 3::nat] - 1 = 3" by simp
  have "shuffle [0, 1, 2, 3::nat] rs = shuffle_from 3 [0, 1, 2, 3] rs"
    unfolding shuffle_def three ..
  moreover have "(3::nat) < length [0, 1, 2, 3::nat]" by simp
  note shuffle_from_set [OF assms this]
  moreover have "set [0, 1, 2, 3::nat] = {0, 1, 2, 3}" by simp
  moreover have "distinct [0, 1, 2, 3::nat]" by simp
  moreover have "length [0, 1, 2, 3::nat] = 4" by simp
  ultimately show ?thesis by (simp only:)
qed

section \<open>Target generation always returns\<close>

text \<open>
  The planned-cube map has the keys \<open>0, ..., NUM_COLUMNS - 1\<close>, in this order: the
  constructor of the generator makes it so, and no key is ever added or removed.
\<close>

definition planned_keys :: "game \<Rightarrow> bool" where
  "planned_keys g = (map fst (plannedCubes g) = [0..<NUM_COLUMNS])"

lemma draw_values_props:
  assumes "unit_draws rs" "1 \<le> m"
  shows "length (fst (draw_values n m rs)) = n \<and>
         (\<forall>v\<in>set (fst (draw_values n m rs)). 1 \<le> v \<and> v \<le> m) \<and>
         unit_draws (snd (draw_values n m rs))"
  using assms(1)
proof (induction n arbitrary: rs)
  case 0
  then show ?case by simp
next
  case (Suc n)
  from randomInt_range [OF Suc.prems assms(2)]
  have r: "1 \<le> fst (randomInt 1 m rs) \<and> fst (randomInt 1 m rs) \<le> m"
    "unit_draws (snd (randomInt 1 m rs))" by simp_all
  from Suc.IH [OF r(2)] r(1) show ?case
    by (simp add: split_beta Let_def)
qed

lemma plan_values_total:
  assumes "\<forall>k<4. map_of planned (shuffledCols ! k) \<noteq> None"
  shows "\<exists>planned'. plan_values i vals shuffledCols planned = Some planned' \<and>
           map fst planned' = map fst planned \<and>
           (\<forall>c q'. map_of planned' c = Some q' \<longrightarrow>
              (\<exists>q. map_of planned c = Some q \<and> set q' \<subseteq> set q \<union> set vals))"
  using assms
proof (induction vals arbitrary: i planned)
  case Nil
  then show ?case by simp
next
  case (Cons v vals)
  let ?c = "shuffledCols ! (i mod 4)"
  from Cons.prems obtain q where q: "map_of planned ?c = Some q"
    by (metis mod_less_divisor not_None_eq zero_less_numeral)
  let ?p = "AList.update ?c (q @ [v]) planned"
  have keys: "map fst ?p = map fst planned"
    using q by (simp add: update_keys map_of_eq_None_iff [symmetric])
  have m: "map_of ?p = (map_of planned)(?c \<mapsto> q @ [v])"
    by (rule update_conv')
  have "\<forall>k<4. map_of ?p (shuffledCols ! k) \<noteq> None"
    using Cons.prems by (simp add: m)
  from Cons.IH [OF this, of "Suc i"] obtain p' where
    p': "plan_values (Suc i) vals shuffledCols ?p = Some p'" "map fst p' = map fst ?p"
    "\<forall>c q'. map_of p' c = Some q' \<longrightarrow> (\<exists>q. map_of ?p c = Some q \<and> set q' \<subseteq> set q \<union> set vals)"
    by blast
  have "\<exists>q0. map_of planned c = Some q0 \<and> set q' \<subseteq> set q0 \<union> set (v # vals)"
    if "map_of p' c = Some q'" for c q'
  proof -
    from p'(3) that obtain q1 where q1: "map_of ?p c = Some q1" "set q' \<subseteq> set q1 \<union> set vals"
      by blast
    show ?thesis
    proof (cases "c = ?c")
      case True
      with q1(1) have "q1 = q @ [v]" by (simp add: m)
      with q1(2) q True show ?thesis by auto
    next
      case False
      with q1(1) have "map_of planned c = Some q1" by (simp add: m)
      with q1(2) show ?thesis by auto
    qed
  qed
  with p'(1,2) keys q show ?case by (simp add: Let_def)
qed


lemma planned_keys_lookup:
  assumes "planned_keys g" "c < NUM_COLUMNS"
  shows "map_of (plannedCubes g) c \<noteq> None"
proof -
  have "c \<in> set (map fst (plannedCubes g))"
    using assms by (simp add: planned_keys_def)
  then show ?thesis by (simp add: map_of_eq_None_iff)
qed

lemma generateFallbackTarget_total:
  assumes "planned_keys g" "unit_draws (rnd g)" "1 \<le> maxNumber config"
  shows "\<exists>t vals g'. generateFallbackTarget g config = Some (t, g') \<and>
           g' = g\<lparr>plannedCubes := plannedCubes g', rnd := rnd g'\<rparr> \<and>
           planned_keys g' \<and> unit_draws (rnd g') \<and>
           t = clamp (sum_list vals) MIN_TARGET (maxTarget config) \<and>
           (\<forall>v\<in>set vals. 1 \<le> v \<and> v \<le> maxNumber config) \<and>
           (\<forall>c q'. map_of (plannedCubes g') c = Some q' \<longrightarrow>
              (\<exists>q. map_of (plannedCubes g) c = Some q \<and> set q' \<subseteq> set q \<union> set vals))"
proof -
  let ?n = "if shd (rnd g) < 0.5 then 2 else (3::nat)"
  obtain vals rs1 where dv: "draw_values ?n (maxNumber config) (stl (rnd g)) = (vals, rs1)"
    by (cases "draw_values ?n (maxNumber config) (stl (rnd g))")
  obtain cols rs2 where sh: "shuffle [0, 1, 2, 3::nat] rs1 = (cols, rs2)"
    by (cases "shuffle [0, 1, 2, 3::nat] rs1")
  from draw_values_props [OF unit_draws_stl [OF assms(2)] assms(3), of ?n] dv
  have v: "\<forall>v\<in>set vals. 1 \<le> v \<and> v \<le> maxNumber config" and u1: "unit_draws rs1"
    by simp_all
  from shuffle_cols [OF u1] sh
  have c: "set cols = {0, 1, 2, 3}" "length cols = 4" and u2: "unit_draws rs2"
    by simp_all
  have "\<forall>k<4. map_of (plannedCubes g) (cols ! k) \<noteq> None"
  proof (intro allI impI)
    fix k :: nat assume "k < 4"
    with c(2) have "cols ! k \<in> set cols" by simp
    with c(1) have "cols ! k < NUM_COLUMNS" by (auto simp: NUM_COLUMNS_def)
    from planned_keys_lookup [OF assms(1) this]
    show "map_of (plannedCubes g) (cols ! k) \<noteq> None" .
  qed
  from plan_values_total [OF this, of 0 vals] obtain p' where
    p': "plan_values 0 vals cols (plannedCubes g) = Some p'"
    "map fst p' = map fst (plannedCubes g)"
    "\<forall>c q'. map_of p' c = Some q' \<longrightarrow>
        (\<exists>q. map_of (plannedCubes g) c = Some q \<and> set q' \<subseteq> set q \<union> set vals)"
    by blast
  let ?g' = "g\<lparr>plannedCubes := p', rnd := rs2\<rparr>"
  have ret: "generateFallbackTarget g config =
               Some (clamp (sum_list vals) MIN_TARGET (maxTarget config), ?g')"
    unfolding generateFallbackTarget_def Let_def dv prod.case sh p'(1) option.case ..
  have k: "planned_keys ?g'"
    using assms(1) p'(2) by (simp add: planned_keys_def)
  show ?thesis
    unfolding ret
    by (intro exI [of _ "clamp (sum_list vals) MIN_TARGET (maxTarget config)"]
          exI [of _ vals] exI [of _ ?g'] conjI refl k v)
       (simp_all add: u2 p'(3))
qed


lemma difficulty_pool_nonempty:
  "validSums \<noteq> [] \<Longrightarrow> difficulty_pool validSums roll \<noteq> []"
  by (simp add: difficulty_pool_def)

lemma chooseSumByDifficulty_member:
  assumes "unit_draws rs" "validSums \<noteq> []"
  shows "\<exists>s\<in>set (difficulty_pool validSums (shd rs)).
           chooseSumByDifficulty validSums rs = (Some (fst s), stl (stl rs))"
proof -
  let ?pool = "difficulty_pool validSums (shd rs)"
  from randomChoice_member [OF unit_draws_stl [OF assms(1)]
         difficulty_pool_nonempty [OF assms(2), of "shd rs"]]
  obtain s where s: "s \<in> set ?pool" "fst (randomChoice ?pool (stl rs)) = Some s"
    and r: "snd (randomChoice ?pool (stl rs)) = stl (stl rs)"
    by blast
  then have "chooseSumByDifficulty validSums rs = (Some (fst s), stl (stl rs))"
    by (simp add: chooseSumByDifficulty_def Let_def split_beta)
  with s(1) show ?thesis by blast
qed


lemma validSums_possible: "validSums_of g config \<noteq> [] \<Longrightarrow> possibleSums_of g \<noteq> []"
  by (auto simp: validSums_of_def)

lemma generateTarget_search:
  assumes "getLevelConfig (level g) = Some config" "validSums_of g config \<noteq> []"
    "unit_draws (rnd g)"
  shows "\<exists>s\<in>set (difficulty_pool (validSums_of g config) (shd (rnd g))).
           generateTarget g = Some (fst s, g\<lparr>rnd := stl (stl (rnd g))\<rparr>)"
proof -
  from chooseSumByDifficulty_member [OF assms(3) assms(2)]
  obtain s where s: "s \<in> set (difficulty_pool (validSums_of g config) (shd (rnd g)))"
    "chooseSumByDifficulty (validSums_of g config) (rnd g) = (Some (fst s), stl (stl (rnd g)))"
    by blast
  have "generateTarget g = Some (fst s, g\<lparr>rnd := stl (stl (rnd g))\<rparr>)"
    unfolding generateTarget_def assms(1) option.case Let_def
    using assms(2) validSums_possible [OF assms(2)] by (simp add: s(2))
  with s(1) show ?thesis by blast
qed

lemma generateTarget_fallback:
  assumes "getLevelConfig (level g) = Some config" "validSums_of g config = []"
  shows "generateTarget g = generateFallbackTarget g config"
  unfolding generateTarget_def assms(1) option.case Let_def
  using assms(2) by simp

lemma generateTarget_total:
  assumes "planned_keys g" "unit_draws (rnd g)"
  shows "\<exists>t g'. generateTarget g = Some (t, g') \<and>
           g' = g\<lparr>plannedCubes := plannedCubes g', rnd := rnd g'\<rparr> \<and>
           planned_keys g' \<and> unit_draws (rnd g') \<and>
           (\<forall>c q'. map_of (plannedCubes g') c = Some q' \<longrightarrow>
              (\<exists>q. map_of (plannedCubes g) c = Some q \<and>
                   (\<forall>v\<in>set q'. v \<in> set q \<or> 1 \<le> v)))"
proof -
  from getLevelConfig_Some [of "level g"] obtain config where
    cfg: "getLevelConfig (level g) = Some config" "6 \<le> maxNumber config"
    by blast
  show ?thesis
  proof (cases "validSums_of g config = []")
    case True
    have "1 \<le> maxNumber config" using cfg(2) by simp
    from generateFallbackTarget_total [OF assms this]
    obtain t vals g' where f: "generateFallbackTarget g config = Some (t, g')"
      "g' = g\<lparr>plannedCubes := plannedCubes g', rnd := rnd g'\<rparr>"
      "planned_keys g'" "unit_draws (rnd g')"
      "\<forall>v\<in>set vals. 1 \<le> v \<and> v \<le> maxNumber config"
      "\<forall>c q'. map_of (plannedCubes g') c = Some q' \<longrightarrow>
              (\<exists>q. map_of (plannedCubes g) c = Some q \<and> set q' \<subseteq> set q \<union> set vals)"
      by blast
    have "\<exists>q. map_of (plannedCubes g) c = Some q \<and> (\<forall>v\<in>set q'. v \<in> set q \<or> 1 \<le> v)"
      if "map_of (plannedCubes g') c = Some q'" for c q'
      using f(5) f(6) that by blast
    with f(1-4) show ?thesis
      unfolding generateTarget_fallback [OF cfg(1) True] by blast
  next
    case False
    from generateTarget_search [OF cfg(1) False assms(2)]
    obtain s :: valid_sum where
      s: "generateTarget g = Some (fst s, g\<lparr>rnd := stl (stl (rnd g))\<rparr>)"
      by blast
    let ?g' = "g\<lparr>rnd := stl (stl (rnd g))\<rparr>"
    have 1: "?g' = g\<lparr>plannedCubes := plannedCubes ?g', rnd := rnd ?g'\<rparr>" by simp
    have 2: "planned_keys ?g'" using assms(1) by (simp add: planned_keys_def)
    have 3: "unit_draws (rnd ?g')"
      using unit_draws_stl [OF unit_draws_stl [OF assms(2)]] by simp
    have 4: "\<forall>c q'. map_of (plannedCubes ?g') c = Some q' \<longrightarrow>
              (\<exists>q. map_of (plannedCubes g) c = Some q \<and> (\<forall>v\<in>set q'. v \<in> set q \<or> 1 \<le> v))"
      by simp
    show ?thesis
      unfolding s by (intro exI [of _ "fst s"] exI [of _ ?g'] conjI refl 1 2 3 4)
  qed
qed

section \<open>The fallback target and the difficulty pools\<close>

lemma new_game_fields:
  "columns (new_game rs) = [[], [], [], []]"
  "queues (new_game rs) = [[], [], [], []]"
  "targets (new_game rs) = []"
  "level (new_game rs) = 1"
  "plannedCubes (new_game rs) = [(0, []), (1, []), (2, []), (3, [])]"
  "rnd (new_game rs) = rs"
  "lastMatchTime (new_game rs) = 0"
  "comboCount (new_game rs) = 0"
  by (simp_all add: new_game_def reset_def NUM_COLUMNS_def upt_rec)


lemma level_1_config:
  "getLevelConfig 1 = Some \<lparr>maxNumber = 6, maxTarget = 15, spawnInterval = 3000\<rparr>"
  by (simp add: getLevelConfig_def LEVEL_CONFIG_def clamp_def)

lemma findAllPossibleSums_Nil: "findAllPossibleSums [] mx = []"
  by (simp add: findAllPossibleSums_def search.simps search_for.simps MIN_CUBES_FOR_SUM_def)

lemma new_game_validSums: "validSums_of (new_game rs) config = []"
  by (simp add: validSums_of_def possibleSums_of_def getAllCubeValues_def
        getUpcomingCubeValues_def new_game_fields findAllPossibleSums_Nil)

lemma new_game_fallback:
  "generateFallbackTarget (new_game (sconst 0))
     \<lparr>maxNumber = 6, maxTarget = 15, spawnInterval = 3000\<rparr> =
   Some (5, (new_game (sconst 0))
              \<lparr>plannedCubes := [(0, []), (1, [1]), (2, [1]), (3, [])], rnd := sconst 0\<rparr>)"
  by (simp add: generateFallbackTarget_def new_game_fields randomInt_def shuffle_def
       numeral_2_eq_2 numeral_3_eq_3 clamp_def MIN_TARGET_def)

text \<open>
  Claim C1, at a fresh game whose draws are all 0. The first \<open>generateTarget()\<close> takes the
  fallback path (there is no cube yet), draws two values 1 and 1 and plans them for the
  columns 1 and 2, and returns the clamped target 5: the planned values add up to 2, not
  to the returned target.
\<close>

theorem fallback_target_not_planned_sum:
  "generateTarget (new_game (sconst 0)) =
     Some (5, (new_game (sconst 0))
                \<lparr>plannedCubes := [(0, []), (1, [1]), (2, [1]), (3, [])], rnd := sconst 0\<rparr>) \<and>
   sum_list (concat (map snd [(0::nat, []), (1, [1::int]), (2, [1]), (3, [])])) = 2"
proof -
  have "getLevelConfig (level (new_game (sconst 0))) =
          Some \<lparr>maxNumber = 6, maxTarget = 15, spawnInterval = 3000\<rparr>"
    by (simp add: new_game_fields level_1_config)
  from generateTarget_fallback [OF this new_game_validSums]
  show ?thesis by (simp add: new_game_fallback)
qed


lemma unit_draws_sconst: "unit_draws (sconst x) \<longleftrightarrow> 0 \<le> x \<and> x < 1"
  by (simp add: unit_draws_def)

lemma randomChoice_nth:
  assumes "unit_draws rs" "arr \<noteq> []"
  shows "randomChoice arr rs = (Some (arr ! nat \<lfloor>shd rs * real (length arr)\<rfloor>), stl rs) \<and>
         nat \<lfloor>shd rs * real (length arr)\<rfloor> < length arr"
proof -
  have "0 < int (length arr)" using assms(2) by simp
  from floor_scaled_draw [OF _ _ this, of "shd rs"] unit_draws_shd [OF assms(1)]
  have "0 \<le> \<lfloor>shd rs * real (length arr)\<rfloor> \<and> \<lfloor>shd rs * real (length arr)\<rfloor> < int (length arr)"
    by simp
  then have k: "0 \<le> \<lfloor>shd rs * real (length arr)\<rfloor>" "nat \<lfloor>shd rs * real (length arr)\<rfloor> < length arr"
    by linarith+
  then show ?thesis by (simp add: randomChoice_def Let_def)
qed













section \<open>Planned cubes come first\<close>

lemma generateNextCubeValue_planned:
  "map_of (plannedCubes g) c = Some (v # rest) \<Longrightarrow>
     generateNextCubeValue g c = Some (v, g\<lparr>plannedCubes := AList.update c rest (plannedCubes g)\<rparr>)"
  by (simp add: generateNextCubeValue_def)

text \<open>
  \<open>_generateFallbackTarget\<close> in terms of its variables \<open>values\<close> and \<open>shuffledCols\<close>.
\<close>

lemma generateFallbackTarget_plan:
  "generateFallbackTarget g config =
     (case plan_values 0 (fallback_values g config) (fallback_cols g config) (plannedCubes g) of
        None \<Rightarrow> None
      | Some planned \<Rightarrow>
          Some (clamp (sum_list (fallback_values g config)) MIN_TARGET (maxTarget config),
                g\<lparr>plannedCubes := planned,
                  rnd := snd (shuffle [0, 1, 2, 3::nat]
                           (snd (draw_values (if shd (rnd g) < 0.5 then 2 else 3)
                                   (maxNumber config) (stl (rnd g)))))\<rparr>))"
  unfolding generateFallbackTarget_def fallback_values_def fallback_cols_def Let_def
    case_prod_beta ..

text \<open>
  Two values planted into two different columns are pushed at the end of the planned
  queues of these columns.
\<close>

lemma fallback_plants_two:
  assumes v: "fallback_values h cfg = [a, b]"
    and c: "take 2 (fallback_cols h cfg) = [c1, c2]"
    and ne: "c1 \<noteq> c2"
    and p1: "map_of (plannedCubes h) c1 = Some q1"
    and p2: "map_of (plannedCubes h) c2 = Some q2"
  shows "\<exists>t rs. generateFallbackTarget h cfg =
           Some (t, h\<lparr>plannedCubes :=
                        AList.update c2 (q2 @ [b]) (AList.update c1 (q1 @ [a]) (plannedCubes h)),
                      rnd := rs\<rparr>)"
proof -
  from c have c0: "fallback_cols h cfg ! 0 = c1" and c1: "fallback_cols h cfg ! Suc 0 = c2"
    by (metis nth_take zero_less_numeral nth_Cons_0,
        metis nth_take one_less_numeral_iff semiring_norm(76) nth_Cons_0 nth_Cons_Suc One_nat_def)
  have pv: "plan_values 0 [a, b] (fallback_cols h cfg) (plannedCubes h) =
              Some (AList.update c2 (q2 @ [b]) (AList.update c1 (q1 @ [a]) (plannedCubes h)))"
    using p1 p2 ne by (simp add: c0 c1 update_conv')
  show ?thesis
    unfolding generateFallbackTarget_plan v pv option.case by blast
qed

text \<open>
  Claim C6, amended. For every column index whose planned-cube queue is not empty,
  \<open>generateNextCubeValue\<close> returns the head of the queue and removes it, and changes
  nothing else: no random draw is consumed, so adaptive and balanced generation are not
  run. So for every game in which 4 is the head of the planned queue of column 1 and 6 the
  head of the planned queue of column 3, \<open>generateNextCubeValue(1)\<close> returns 4 and the next
  \<open>generateNextCubeValue(3)\<close> returns 6, whatever the board, the targets, the level and the
  random draws. A fallback target generation whose values are 4 and 6 and whose shuffled
  columns start with 1 and 3 pushes 4 at the end of the planned queue \<open>q1\<close> of column 1 and
  6 at the end of the planned queue \<open>q3\<close> of column 3, and changes nothing but the planned
  cubes and the random draws; the next \<open>generateNextCubeValue(1)\<close> returns the head of
  \<open>q1\<close> followed by 4 and the next \<open>generateNextCubeValue(3)\<close> the head of \<open>q3\<close> followed
  by 6. These are 4 and 6 when the two queues were empty before the fallback, and the
  values planned earlier and not yet taken otherwise.
\<close>

theorem planned_cube_first:
  "(map_of (plannedCubes g) c = Some (v # rest) \<longrightarrow>
      generateNextCubeValue g c =
        Some (v, g\<lparr>plannedCubes := AList.update c rest (plannedCubes g)\<rparr>)) \<and>
   (map_of (plannedCubes h1) 1 = Some (4 # r1) \<and> map_of (plannedCubes h1) 3 = Some (6 # r3) \<longrightarrow>
      generateNextCubeValue h1 1 =
        Some (4, h1\<lparr>plannedCubes := AList.update 1 r1 (plannedCubes h1)\<rparr>) \<and>
      generateNextCubeValue (h1\<lparr>plannedCubes := AList.update 1 r1 (plannedCubes h1)\<rparr>) 3 =
        Some (6, h1\<lparr>plannedCubes := AList.update 3 r3 (AList.update 1 r1 (plannedCubes h1))\<rparr>)) \<and>
   (fallback_values h cfg = [4, 6] \<and> take 2 (fallback_cols h cfg) = [1, 3] \<and>
    map_of (plannedCubes h) 1 = Some q1 \<and> map_of (plannedCubes h) 3 = Some q3 \<longrightarrow>
      (\<exists>t rs h2 h3.
         generateFallbackTarget h cfg =
           Some (t, h\<lparr>plannedCubes :=
                        AList.update 3 (q3 @ [6]) (AList.update 1 (q1 @ [4]) (plannedCubes h)),
                      rnd := rs\<rparr>) \<and>
         generateNextCubeValue
           (h\<lparr>plannedCubes :=
                AList.update 3 (q3 @ [6]) (AList.update 1 (q1 @ [4]) (plannedCubes h)),
              rnd := rs\<rparr>) 1 = Some (hd (q1 @ [4]), h2) \<and>
         generateNextCubeValue h2 3 = Some (hd (q3 @ [6]), h3)))"
proof (intro conjI impI)
  assume "map_of (plannedCubes g) c = Some (v # rest)"
  then show "generateNextCubeValue g c =
        Some (v, g\<lparr>plannedCubes := AList.update c rest (plannedCubes g)\<rparr>)"
    by (rule generateNextCubeValue_planned)
next
  assume a: "map_of (plannedCubes h1) 1 = Some (4 # r1) \<and> map_of (plannedCubes h1) 3 = Some (6 # r3)"
  then show "generateNextCubeValue h1 1 =
        Some (4, h1\<lparr>plannedCubes := AList.update 1 r1 (plannedCubes h1)\<rparr>)"
    by (intro generateNextCubeValue_planned) simp
next
  assume a: "map_of (plannedCubes h1) 1 = Some (4 # r1) \<and> map_of (plannedCubes h1) 3 = Some (6 # r3)"
  let ?h2 = "h1\<lparr>plannedCubes := AList.update 1 r1 (plannedCubes h1)\<rparr>"
  from a have "map_of (plannedCubes ?h2) 3 = Some (6 # r3)" by (simp add: update_conv')
  from generateNextCubeValue_planned [OF this]
  show "generateNextCubeValue ?h2 3 =
        Some (6, h1\<lparr>plannedCubes := AList.update 3 r3 (AList.update 1 r1 (plannedCubes h1))\<rparr>)"
    by simp
next
  assume a: "fallback_values h cfg = [4, 6] \<and> take 2 (fallback_cols h cfg) = [1, 3] \<and>
    map_of (plannedCubes h) 1 = Some q1 \<and> map_of (plannedCubes h) 3 = Some q3"
  let ?p = "AList.update 3 (q3 @ [6]) (AList.update 1 (q1 @ [4]) (plannedCubes h))"
  have ne: "(1::nat) \<noteq> 3" by simp
  from a have "\<exists>t rs. generateFallbackTarget h cfg = Some (t, h\<lparr>plannedCubes := ?p, rnd := rs\<rparr>)"
    by (intro fallback_plants_two ne) simp_all
  then obtain t rs
    where f: "generateFallbackTarget h cfg = Some (t, h\<lparr>plannedCubes := ?p, rnd := rs\<rparr>)"
    by (elim exE)
  let ?h1 = "h\<lparr>plannedCubes := ?p, rnd := rs\<rparr>"
  let ?h2 = "?h1\<lparr>plannedCubes := AList.update 1 (tl (q1 @ [4])) (plannedCubes ?h1)\<rparr>"
  let ?h3 = "?h2\<lparr>plannedCubes := AList.update 3 (tl (q3 @ [6])) (plannedCubes ?h2)\<rparr>"
  have "map_of (plannedCubes ?h1) 1 = Some (hd (q1 @ [4]) # tl (q1 @ [4]))"
    by (simp add: update_conv')
  from generateNextCubeValue_planned [OF this]
  have n1: "generateNextCubeValue ?h1 1 = Some (hd (q1 @ [4]), ?h2)" .
  have "map_of (plannedCubes ?h2) 3 = Some (hd (q3 @ [6]) # tl (q3 @ [6]))"
    by (simp add: update_conv')
  from generateNextCubeValue_planned [OF this]
  have n3: "generateNextCubeValue ?h2 3 = Some (hd (q3 @ [6]), ?h3)" .
  show "\<exists>t rs h2 h3.
         generateFallbackTarget h cfg =
           Some (t, h\<lparr>plannedCubes :=
                        AList.update 3 (q3 @ [6]) (AList.update 1 (q1 @ [4]) (plannedCubes h)),
                      rnd := rs\<rparr>) \<and>
         generateNextCubeValue
           (h\<lparr>plannedCubes :=
                AList.update 3 (q3 @ [6]) (AList.update 1 (q1 @ [4]) (plannedCubes h)),
              rnd := rs\<rparr>) 1 = Some (hd (q1 @ [4]), h2) \<and>
         generateNextCubeValue h2 3 = Some (hd (q3 @ [6]), h3)"
    by (intro exI [of _ t] exI [of _ rs] exI [of _ ?h2] exI [of _ ?h3] conjI) (fact f n1 n3)+
qed

text \<open>
  The states of \<open>start()\<close> on a fresh game whose random draws are 0 seven times, then 1/2,
  9/10, 0, 9/10, 0, and 0 from then on: the game when \<open>start()\<close> has set its flags, after
  its first target and after its second target.
\<close>

definition start_example :: game where
  "start_example =
     (new_game (0 ## 0 ## 0 ## 0 ## 0 ## 0 ## 0 ## 1 / 2 ## 9 / 10 ## 0 ## 9 / 10 ## 0 ## sconst 0))
       \<lparr>isPlaying := True, isPaused := False\<rparr>"

definition start_first_target :: game where
  "start_first_target =
     start_example
       \<lparr>plannedCubes := [(0, []), (1, [1]), (2, [1]), (3, [])],
        rnd := 0 ## 1 / 2 ## 9 / 10 ## 0 ## 9 / 10 ## 0 ## sconst 0,
        targets := [5]\<rparr>"

definition start_second_target :: game where
  "start_second_target =
     start_first_target
       \<lparr>plannedCubes := [(0, []), (1, [1, 4]), (2, [1]), (3, [6])],
        rnd := sconst 0,
        targets := [5, 10]\<rparr>"

lemma start_example_fields:
  "columns start_example = [[], [], [], []]"
  "queues start_example = [[], [], [], []]"
  "targets start_example = []"
  "level start_example = 1"
  "plannedCubes start_example = [(0, []), (1, []), (2, []), (3, [])]"
  "rnd start_example =
     0 ## 0 ## 0 ## 0 ## 0 ## 0 ## 0 ## 1 / 2 ## 9 / 10 ## 0 ## 9 / 10 ## 0 ## sconst 0"
  by (simp_all add: start_example_def new_game_fields)

lemma start_first_target_fields:
  "columns start_first_target = [[], [], [], []]"
  "queues start_first_target = [[], [], [], []]"
  "targets start_first_target = [5]"
  "level start_first_target = 1"
  "plannedCubes start_first_target = [(0, []), (1, [1]), (2, [1]), (3, [])]"
  "rnd start_first_target = 0 ## 1 / 2 ## 9 / 10 ## 0 ## 9 / 10 ## 0 ## sconst 0"
  by (simp_all add: start_first_target_def start_example_fields)

lemma start_example_target:
  "generateTarget start_example =
     Some (5, start_example\<lparr>plannedCubes := [(0, []), (1, [1]), (2, [1]), (3, [])],
                           rnd := 0 ## 1 / 2 ## 9 / 10 ## 0 ## 9 / 10 ## 0 ## sconst 0\<rparr>)"
proof -
  let ?cfg = "\<lparr>maxNumber = 6, maxTarget = 15, spawnInterval = 3000\<rparr>"
  have l: "getLevelConfig (level start_example) = Some ?cfg"
    by (simp add: start_example_fields level_1_config)
  have v: "validSums_of start_example ?cfg = []"
    by (simp add: validSums_of_def possibleSums_of_def getAllCubeValues_def
          getUpcomingCubeValues_def start_example_fields findAllPossibleSums_Nil)
  have f: "generateFallbackTarget start_example ?cfg =
     Some (5, start_example\<lparr>plannedCubes := [(0, []), (1, [1]), (2, [1]), (3, [])],
                           rnd := 0 ## 1 / 2 ## 9 / 10 ## 0 ## 9 / 10 ## 0 ## sconst 0\<rparr>)"
    by (simp add: generateFallbackTarget_def start_example_fields randomInt_def shuffle_def
         numeral_2_eq_2 numeral_3_eq_3 clamp_def MIN_TARGET_def)
  show ?thesis unfolding generateTarget_fallback [OF l v] f ..
qed

lemma start_first_validSums:
  "validSums_of start_first_target \<lparr>maxNumber = 6, maxTarget = 15, spawnInterval = 3000\<rparr> = []"
  by (simp add: validSums_of_def possibleSums_of_def getAllCubeValues_def
        getUpcomingCubeValues_def start_first_target_fields findAllPossibleSums_def
        search.simps search_for.simps record_combo_def MIN_CUBES_FOR_SUM_def
        MAX_CUBES_FOR_SUM_def MIN_TARGET_def)

lemma start_first_fallback:
  "fallback_values start_first_target
     \<lparr>maxNumber = 6, maxTarget = 15, spawnInterval = 3000\<rparr> = [4, 6]"
  "fallback_cols start_first_target
     \<lparr>maxNumber = 6, maxTarget = 15, spawnInterval = 3000\<rparr> = [1, 3, 2, 0]"
  by (simp_all add: fallback_values_def fallback_cols_def start_first_target_fields
        randomInt_def shuffle_def numeral_2_eq_2 numeral_3_eq_3)

lemma start_first_target_gen:
  "generateTarget start_first_target =
     Some (10, start_first_target\<lparr>plannedCubes := [(0, []), (1, [1, 4]), (2, [1]), (3, [6])],
                                 rnd := sconst 0\<rparr>)"
proof -
  let ?cfg = "\<lparr>maxNumber = 6, maxTarget = 15, spawnInterval = 3000\<rparr>"
  have l: "getLevelConfig (level start_first_target) = Some ?cfg"
    by (simp add: start_first_target_fields level_1_config)
  have f: "generateFallbackTarget start_first_target ?cfg =
     Some (10, start_first_target\<lparr>plannedCubes := [(0, []), (1, [1, 4]), (2, [1]), (3, [6])],
                                 rnd := sconst 0\<rparr>)"
    by (simp add: generateFallbackTarget_def start_first_target_fields randomInt_def shuffle_def
         numeral_2_eq_2 numeral_3_eq_3 clamp_def MIN_TARGET_def)
  show ?thesis unfolding generateTarget_fallback [OF l start_first_validSums] f ..
qed

text \<open>
  Claim C6 fails as stated on the run of \<open>start()\<close> itself. On a fresh game at level 1 with
  the draws above, the first target of \<open>start()\<close> is a fallback target (there is no cube
  yet) that plans 1 and 1 for the columns 1 and 2. The second target is a fallback target
  again (the only sum of the planned cubes is 2, below the smallest target 5); its values
  are 4 and 6 and its shuffled columns 1, 3, 2, 0, so it plants 4 and 6 into the columns
  1 and 3. The planned cubes of column 1 are then 1 and 4, and the next
  \<open>generateNextCubeValue(1)\<close> returns 1, not 4.
\<close>

theorem planned_cube_first_counterexample:
  "push_target start_example = Some start_first_target \<and>
   getLevelConfig (level start_first_target) =
     Some \<lparr>maxNumber = 6, maxTarget = 15, spawnInterval = 3000\<rparr> \<and>
   validSums_of start_first_target \<lparr>maxNumber = 6, maxTarget = 15, spawnInterval = 3000\<rparr> = [] \<and>
   fallback_values start_first_target
     \<lparr>maxNumber = 6, maxTarget = 15, spawnInterval = 3000\<rparr> = [4, 6] \<and>
   fallback_cols start_first_target
     \<lparr>maxNumber = 6, maxTarget = 15, spawnInterval = 3000\<rparr> = [1, 3, 2, 0] \<and>
   push_target start_first_target = Some start_second_target \<and>
   plannedCubes start_second_target = [(0, []), (1, [1, 4]), (2, [1]), (3, [6])] \<and>
   generateNextCubeValue start_second_target 1 =
     Some (1, start_second_target\<lparr>plannedCubes := [(0, []), (1, [4]), (2, [1]), (3, [6])]\<rparr>)"
proof -
  have a: "push_target start_example = Some start_first_target"
    by (simp add: push_target_def start_example_target start_first_target_def
          start_example_fields)
  have b: "getLevelConfig (level start_first_target) =
     Some \<lparr>maxNumber = 6, maxTarget = 15, spawnInterval = 3000\<rparr>"
    by (simp add: start_first_target_fields level_1_config)
  have c: "push_target start_first_target = Some start_second_target"
    by (simp add: push_target_def start_first_target_gen start_second_target_def
          start_first_target_fields)
  have d: "plannedCubes start_second_target = [(0, []), (1, [1, 4]), (2, [1]), (3, [6])]"
    by (simp add: start_second_target_def)
  have e: "generateNextCubeValue start_second_target 1 =
     Some (1, start_second_target\<lparr>plannedCubes := [(0, []), (1, [4]), (2, [1]), (3, [6])]\<rparr>)"
    by (simp add: generateNextCubeValue_def d)
  from a b start_first_validSums start_first_fallback c d e show ?thesis by (intro conjI)
qed

text \<open>
  The second target of \<open>start()\<close> above, where the planned queue of column 1 holds 1 when
  the fallback plants 4, and a fresh game whose draws plant 4 and 6 into the empty
  planned queues of the columns 1 and 3.
\<close>

definition planted_example :: game where
  "planted_example = new_game (0 ## 1 / 2 ## 9 / 10 ## 0 ## 9 / 10 ## 0 ## sconst 0)"

theorem planned_cube_first_witness:
  "fallback_values planted_example \<lparr>maxNumber = 6, maxTarget = 15, spawnInterval = 3000\<rparr>
     = [4, 6] \<and>
   take 2 (fallback_cols planted_example \<lparr>maxNumber = 6, maxTarget = 15, spawnInterval = 3000\<rparr>)
     = [1, 3] \<and>
   map_of (plannedCubes planted_example) 1 = Some [] \<and>
   map_of (plannedCubes planted_example) 3 = Some [] \<and>
   (\<exists>t rs h2 h3.
      generateFallbackTarget planted_example
        \<lparr>maxNumber = 6, maxTarget = 15, spawnInterval = 3000\<rparr> =
        Some (t, planted_example\<lparr>plannedCubes := [(0, []), (1, [4]), (2, []), (3, [6])],
                                 rnd := rs\<rparr>) \<and>
      generateNextCubeValue
        (planted_example\<lparr>plannedCubes := [(0, []), (1, [4]), (2, []), (3, [6])], rnd := rs\<rparr>) 1
        = Some (4, h2) \<and>
      generateNextCubeValue h2 3 = Some (6, h3)) \<and>
   map_of (plannedCubes start_first_target) 1 = Some [1] \<and>
   map_of (plannedCubes start_first_target) 3 = Some [] \<and>
   (\<exists>t rs h2 h3.
      generateFallbackTarget start_first_target
        \<lparr>maxNumber = 6, maxTarget = 15, spawnInterval = 3000\<rparr> =
        Some (t, start_first_target\<lparr>plannedCubes := [(0, []), (1, [1, 4]), (2, [1]), (3, [6])],
                                    rnd := rs\<rparr>) \<and>
      generateNextCubeValue
        (start_first_target\<lparr>plannedCubes := [(0, []), (1, [1, 4]), (2, [1]), (3, [6])],
                            rnd := rs\<rparr>) 1
        = Some (1, h2) \<and>
      generateNextCubeValue h2 3 = Some (6, h3)) \<and>
   map_of (plannedCubes (planted_example\<lparr>plannedCubes := [(0, []), (1, [4, 1]), (2, []), (3, [6])]\<rparr>)) 1
     = Some (4 # [1]) \<and>
   map_of (plannedCubes (planted_example\<lparr>plannedCubes := [(0, []), (1, [4, 1]), (2, []), (3, [6])]\<rparr>)) 3
     = Some (6 # []) \<and>
   generateNextCubeValue (planted_example\<lparr>plannedCubes := [(0, []), (1, [4, 1]), (2, []), (3, [6])]\<rparr>) 1
     = Some (4, planted_example\<lparr>plannedCubes := [(0, []), (1, [1]), (2, []), (3, [6])]\<rparr>) \<and>
   generateNextCubeValue (planted_example\<lparr>plannedCubes := [(0, []), (1, [1]), (2, []), (3, [6])]\<rparr>) 3
     = Some (6, planted_example\<lparr>plannedCubes := [(0, []), (1, [1]), (2, []), (3, [])]\<rparr>)"
proof -
  let ?cfg = "\<lparr>maxNumber = 6, maxTarget = 15, spawnInterval = 3000\<rparr>"
  let ?g = "planted_example\<lparr>plannedCubes := [(0, []), (1, [4, 1]), (2, []), (3, [6])]\<rparr>"
  have pf: "plannedCubes planted_example = [(0, []), (1, []), (2, []), (3, [])]"
    and r: "rnd planted_example = 0 ## 1 / 2 ## 9 / 10 ## 0 ## 9 / 10 ## 0 ## sconst 0"
    by (simp_all add: planted_example_def new_game_fields)
  have p1: "map_of (plannedCubes planted_example) 1 = Some []"
    and p3: "map_of (plannedCubes planted_example) 3 = Some []"
    by (simp_all add: pf)
  have v: "fallback_values planted_example ?cfg = [4, 6]"
    by (simp add: fallback_values_def r randomInt_def numeral_2_eq_2)
  have c: "take 2 (fallback_cols planted_example ?cfg) = [1, 3]"
    by (simp add: fallback_cols_def r randomInt_def shuffle_def numeral_2_eq_2 numeral_3_eq_3)
  have s1: "map_of (plannedCubes start_first_target) 1 = Some [1]"
    and s3: "map_of (plannedCubes start_first_target) 3 = Some []"
    by (simp_all add: start_first_target_fields)
  have sv: "fallback_values start_first_target ?cfg = [4, 6]"
    and sc: "take 2 (fallback_cols start_first_target ?cfg) = [1, 3]"
    by (simp_all add: start_first_fallback)
  have q1: "map_of (plannedCubes ?g) 1 = Some (4 # [1])"
    and q3: "map_of (plannedCubes ?g) 3 = Some (6 # [])" by simp_all
  note inst1 = planned_cube_first [of ?g 1 4 "[1]" ?g "[1]" "[]" planted_example ?cfg "[]" "[]"]
  note inst2 = planned_cube_first [of ?g 1 4 "[1]" ?g "[1]" "[]" start_first_target ?cfg "[1]" "[]"]
  from inst1 v c p1 p3 have a: "\<exists>t rs h2 h3.
      generateFallbackTarget planted_example ?cfg =
        Some (t, planted_example\<lparr>plannedCubes := [(0, []), (1, [4]), (2, []), (3, [6])],
                                 rnd := rs\<rparr>) \<and>
      generateNextCubeValue
        (planted_example\<lparr>plannedCubes := [(0, []), (1, [4]), (2, []), (3, [6])], rnd := rs\<rparr>) 1
        = Some (4, h2) \<and>
      generateNextCubeValue h2 3 = Some (6, h3)"
    by (simp add: pf)
  from inst2 sv sc s1 s3 have b: "\<exists>t rs h2 h3.
      generateFallbackTarget start_first_target ?cfg =
        Some (t, start_first_target\<lparr>plannedCubes := [(0, []), (1, [1, 4]), (2, [1]), (3, [6])],
                                    rnd := rs\<rparr>) \<and>
      generateNextCubeValue
        (start_first_target\<lparr>plannedCubes := [(0, []), (1, [1, 4]), (2, [1]), (3, [6])],
                            rnd := rs\<rparr>) 1
        = Some (1, h2) \<and>
      generateNextCubeValue h2 3 = Some (6, h3)"
    by (simp add: start_first_target_fields)
  from inst1 q1 q3 have d: "generateNextCubeValue ?g 1
     = Some (4, planted_example\<lparr>plannedCubes := [(0, []), (1, [1]), (2, []), (3, [6])]\<rparr>)"
    and e: "generateNextCubeValue
              (planted_example\<lparr>plannedCubes := [(0, []), (1, [1]), (2, []), (3, [6])]\<rparr>) 3
     = Some (6, planted_example\<lparr>plannedCubes := [(0, []), (1, [1]), (2, []), (3, [])]\<rparr>)"
    by simp_all
  from v c p1 p3 a s1 s3 b q1 q3 d e show ?thesis by (intro conjI)
qed

section \<open>Generated cube values are positive\<close>

text \<open>Every value waiting in a planned-cube queue is at least 1.\<close>

definition planned_positive :: "game \<Rightarrow> bool" where
  "planned_positive g =
     (\<forall>c q. map_of (plannedCubes g) c = Some q \<longrightarrow> (\<forall>v\<in>set q. 1 \<le> v))"

lemma weightedRandom_from_ge: "weightedRandom_from i ws r = Some k \<Longrightarrow> i \<le> k"
proof (induction ws arbitrary: i r)
  case Nil
  then show ?case by simp
next
  case (Cons w ws)
  show ?case
  proof (cases "r - real_of_int w \<le> 0")
    case True
    with Cons.prems show ?thesis by (simp add: Let_def)
  next
    case False
    with Cons.prems have "weightedRandom_from (Suc i) ws (r - real_of_int w) = Some k"
      by (simp add: Let_def)
    from Cons.IH [OF this] show ?thesis by simp
  qed
qed

lemma weightedRandom_nonneg:
  assumes "weights \<noteq> []"
  shows "0 \<le> fst (weightedRandom weights rs)" and "snd (weightedRandom weights rs) = stl rs"
proof -
  have "0 \<le> int (length weights) - 1" using assms by (cases weights) simp_all
  then show "0 \<le> fst (weightedRandom weights rs)"
    by (simp add: weightedRandom_def Let_def split: option.splits)
  show "snd (weightedRandom weights rs) = stl rs"
    by (simp add: weightedRandom_def Let_def)
qed

lemma generateBalancedCube_positive:
  assumes "1 \<le> maxNumber config"
  shows "1 \<le> fst (generateBalancedCube g config)"
    and "snd (generateBalancedCube g config) = g\<lparr>rnd := stl (rnd g)\<rparr>"
proof -
  let ?w = "map (\<lambda>i. max 1 (10 - (case getNumberDistribution g i of None \<Rightarrow> 0 | Some n \<Rightarrow> n) * 2))
              [1..maxNumber config]"
  have "?w \<noteq> []" using assms by simp
  from weightedRandom_nonneg [OF this, of "rnd g"]
  show "1 \<le> fst (generateBalancedCube g config)"
    and "snd (generateBalancedCube g config) = g\<lparr>rnd := stl (rnd g)\<rparr>"
    by (simp_all add: generateBalancedCube_def Let_def split_beta)
qed

lemma findHelpfulValues_range:
  "x \<in> set (findHelpfulValues existing target m) \<Longrightarrow> 1 \<le> x \<and> x \<le> m"
  by (simp add: findHelpfulValues_def)

lemma randomInt_positive:
  assumes "unit_draws rs" "1 \<le> m"
  shows "\<exists>v. randomInt 1 m rs = (v, stl rs) \<and> 1 \<le> v"
  using randomInt_range(1) [OF assms] by (simp add: randomInt_def)

lemma generateHelpfulCube_positive:
  assumes "unit_draws (rnd g)" "1 \<le> maxNumber config"
  shows "\<exists>v rs'. generateHelpfulCube g config = Some (v, g\<lparr>rnd := rs'\<rparr>) \<and> 1 \<le> v \<and>
           unit_draws rs'"
proof -
  let ?fallback = "\<lambda>rs. let (v, rs') = randomInt 1 (maxNumber config) rs
                        in Some (v, g\<lparr>rnd := rs'\<rparr>)"
  let ?t = "hd (targets g)"
  let ?needed = "?t - getSelectedSum g"
  let ?all = "getAllCubeValues g"
  let ?best = "findHelpfulValues ?all ?t (maxNumber config)"
  let ?tail = "\<lambda>rs. if findCombinations ?all ?t 2 \<noteq> [] then ?fallback rs
                    else if findCombinations ?all ?t 3 \<noteq> [] then ?fallback rs
                    else if ?best \<noteq> []
                         then (case randomChoice ?best rs of
                                 (Some v, rs') \<Rightarrow> Some (v, g\<lparr>rnd := rs'\<rparr>)
                               | (None, rs') \<Rightarrow> None)
                         else ?fallback rs"
  have fb: "\<exists>v rs'. ?fallback rs = Some (v, g\<lparr>rnd := rs'\<rparr>) \<and> 1 \<le> v \<and> unit_draws rs'"
    if "unit_draws rs" for rs
  proof -
    from randomInt_positive [OF that assms(2)] obtain v where
      v: "randomInt 1 (maxNumber config) rs = (v, stl rs)" "1 \<le> v" by blast
    have "?fallback rs = Some (v, g\<lparr>rnd := stl rs\<rparr>)" by (simp add: v(1))
    with v(2) unit_draws_stl [OF that] show ?thesis by blast
  qed
  have ch: "\<exists>v rs'. (case randomChoice ?best rs of
                        (Some v, rs') \<Rightarrow> Some (v, g\<lparr>rnd := rs'\<rparr>)
                      | (None, rs') \<Rightarrow> None) = Some (v, g\<lparr>rnd := rs'\<rparr>) \<and> 1 \<le> v \<and>
           unit_draws rs'" if "?best \<noteq> []" "unit_draws rs" for rs
  proof -
    from randomChoice_nth [OF that(2) that(1)] obtain k where
      k: "randomChoice ?best rs = (Some (?best ! k), stl rs)" "k < length ?best"
      by blast
    from k(2) have "?best ! k \<in> set ?best" by (rule nth_mem)
    from findHelpfulValues_range [OF this] have "1 \<le> ?best ! k" by simp
    moreover have "(case randomChoice ?best rs of
                        (Some v, rs') \<Rightarrow> Some (v, g\<lparr>rnd := rs'\<rparr>)
                      | (None, rs') \<Rightarrow> None) = Some (?best ! k, g\<lparr>rnd := stl rs\<rparr>)"
      by (simp add: k(1))
    ultimately show ?thesis using unit_draws_stl [OF that(2)] by blast
  qed
  have tail: "\<exists>v rs'. ?tail rs = Some (v, g\<lparr>rnd := rs'\<rparr>) \<and> 1 \<le> v \<and> unit_draws rs'"
    if "unit_draws rs" for rs
  proof (cases "findCombinations ?all ?t 2 \<noteq> [] \<or> findCombinations ?all ?t 3 \<noteq> [] \<or> ?best = []")
    case True
    then have "?tail rs = ?fallback rs" by auto
    with fb [OF that] show ?thesis by (simp only:)
  next
    case False
    then have "?tail rs = (case randomChoice ?best rs of
                        (Some v, rs') \<Rightarrow> Some (v, g\<lparr>rnd := rs'\<rparr>)
                      | (None, rs') \<Rightarrow> None)" by auto
    moreover from False have "?best \<noteq> []" by simp
    note ch [OF this that]
    ultimately show ?thesis by (simp only:)
  qed
  show ?thesis
  proof (cases "targets g = [] \<or> ?t = 0")
    case True
    then have "generateHelpfulCube g config = ?fallback (rnd g)"
      unfolding generateHelpfulCube_def Let_def by simp
    with fb [OF assms(1)] show ?thesis by (simp only:)
  next
    case nt: False
    show ?thesis
    proof (cases "?needed > 0 \<and> ?needed \<le> maxNumber config")
      case wanted: True
      show ?thesis
      proof (cases "shd (rnd g) < 0.6")
        case True
        with nt wanted have "generateHelpfulCube g config = Some (?needed, g\<lparr>rnd := stl (rnd g)\<rparr>)"
          unfolding generateHelpfulCube_def Let_def by simp
        moreover have "1 \<le> ?needed" using wanted by simp
        ultimately show ?thesis using unit_draws_stl [OF assms(1)] by blast
      next
        case False
        with nt wanted have "generateHelpfulCube g config = ?tail (stl (rnd g))"
          unfolding generateHelpfulCube_def Let_def by simp
        with tail [OF unit_draws_stl [OF assms(1)]] show ?thesis by (simp only:)
      qed
    next
      case False
      then have w: "(?needed > 0 \<and> ?needed \<le> maxNumber config) = False" by simp
      have "generateHelpfulCube g config = ?tail (rnd g)"
        unfolding generateHelpfulCube_def Let_def w using nt by simp
      with tail [OF assms(1)] show ?thesis by (simp only:)
    qed
  qed
qed


lemma reset_planned:
  assumes "planned_keys g"
  shows "plannedCubes (reset g) = [(0, []), (1, []), (2, []), (3, [])]"
proof -
  have u: "[0..<NUM_COLUMNS] = [0, 1, 2, 3]" by (simp add: NUM_COLUMNS_def upt_rec)
  obtain q0 q1 q2 q3 where p: "plannedCubes g = [(0, q0), (1, q1), (2, q2), (3, q3)]"
  proof -
    from assms have m: "map fst (plannedCubes g) = [0, 1, 2, 3]"
      by (simp add: planned_keys_def u)
    then obtain a b c d where "plannedCubes g = [a, b, c, d]"
      by (auto simp: map_eq_Cons_conv)
    with m that [of "snd a" "snd b" "snd c" "snd d"] show thesis
      by (cases a, cases b, cases c, cases d) simp
  qed
  show ?thesis by (simp add: reset_def u p)
qed

lemma planned_positive_reset: "planned_keys g \<Longrightarrow> planned_positive (reset g)"
  by (simp add: planned_positive_def reset_planned)

lemma planned_positive_generateTarget:
  assumes "planned_keys g" "unit_draws (rnd g)" "planned_positive g"
  shows "\<exists>t g'. generateTarget g = Some (t, g') \<and> planned_positive g' \<and>
           planned_keys g' \<and> unit_draws (rnd g')"
proof -
  from generateTarget_total [OF assms(1,2)] obtain t g' where
    r: "generateTarget g = Some (t, g')" "planned_keys g'" "unit_draws (rnd g')"
    and m: "\<forall>c q'. map_of (plannedCubes g') c = Some q' \<longrightarrow>
              (\<exists>q. map_of (plannedCubes g) c = Some q \<and> (\<forall>v\<in>set q'. v \<in> set q \<or> 1 \<le> v))"
    by blast
  have "planned_positive g'"
    unfolding planned_positive_def
  proof (intro allI impI ballI)
    fix c q' v assume q': "map_of (plannedCubes g') c = Some q'" and v: "v \<in> set q'"
    from m q' obtain q where q: "map_of (plannedCubes g) c = Some q"
      "\<forall>v\<in>set q'. v \<in> set q \<or> 1 \<le> v" by blast
    from q(2) v have "v \<in> set q \<or> 1 \<le> v" by blast
    with assms(3) q(1) show "1 \<le> v" unfolding planned_positive_def by blast
  qed
  with r show ?thesis by blast
qed

text \<open>
  Claim C9. Every level maps to a configuration with \<open>maxNumber\<close> at least 1. For every
  column of the board and every game state in which the planned values are positive,
  \<open>generateNextCubeValue\<close> returns, and the value it returns is a positive integer,
  whichever branch produces it (planned queue, helpful cube, balanced cube); the planned
  values stay positive. That the planned values are positive holds after \<open>reset()\<close> and is
  kept by \<open>generateTarget()\<close>, the only function that plans values.
\<close>

theorem generateNextCubeValue_positive:
  assumes "colIndex < length (columns g)"
    and "unit_draws (rnd g)"
    and "planned_positive g"
  shows "(\<exists>config. getLevelConfig (level g) = Some config \<and> 1 \<le> maxNumber config) \<and>
         (\<exists>v g'. generateNextCubeValue g colIndex = Some (v, g') \<and> 1 \<le> v \<and>
                  planned_positive g' \<and> unit_draws (rnd g')) \<and>
         (planned_keys g \<longrightarrow>
            planned_positive (reset g) \<and>
            (\<exists>t g1. generateTarget g = Some (t, g1) \<and> planned_positive g1))"
proof (intro conjI impI)
  from getLevelConfig_Some [of "level g"] obtain config where
    cfg: "getLevelConfig (level g) = Some config" "6 \<le> maxNumber config" by blast
  then have one: "1 \<le> maxNumber config" by simp
  with cfg(1) show "\<exists>config. getLevelConfig (level g) = Some config \<and> 1 \<le> maxNumber config"
    by blast
  show "\<exists>v g'. generateNextCubeValue g colIndex = Some (v, g') \<and> 1 \<le> v \<and>
                  planned_positive g' \<and> unit_draws (rnd g')"
  proof (cases "\<exists>v rest. map_of (plannedCubes g) colIndex = Some (v # rest)")
    case True
    then obtain v rest where p: "map_of (plannedCubes g) colIndex = Some (v # rest)" by blast
    let ?g' = "g\<lparr>plannedCubes := AList.update colIndex rest (plannedCubes g)\<rparr>"
    from generateNextCubeValue_planned [OF p]
    have r: "generateNextCubeValue g colIndex = Some (v, ?g')" .
    from assms(3) p have v: "1 \<le> v" unfolding planned_positive_def by fastforce
    have "planned_positive ?g'"
      unfolding planned_positive_def
    proof (intro allI impI ballI)
      fix c q x assume q: "map_of (plannedCubes ?g') c = Some q" and x: "x \<in> set q"
      show "1 \<le> x"
      proof (cases "c = colIndex")
        case True
        with q have "q = rest" by (simp add: update_conv')
        with x have "x \<in> set (v # rest)" by simp
        with assms(3) p show ?thesis unfolding planned_positive_def by blast
      next
        case False
        with q have "map_of (plannedCubes g) c = Some q" by (simp add: update_conv')
        with assms(3) x show ?thesis unfolding planned_positive_def by blast
      qed
    qed
    moreover have "unit_draws (rnd ?g')" using assms(2) by simp
    ultimately show ?thesis using r v by blast
  next
    case False
    then have a: "generateNextCubeValue g colIndex = generateAdaptiveCube g colIndex config"
      by (auto simp: generateNextCubeValue_def Let_def cfg(1) split: option.splits list.splits)
    have "\<exists>v rs'. generateAdaptiveCube g colIndex config = Some (v, g\<lparr>rnd := rs'\<rparr>) \<and> 1 \<le> v \<and>
            unit_draws rs'"
    proof (cases "length (columns g ! colIndex) \<ge> DANGER_HEIGHT")
      case True
      with assms(1) have "generateAdaptiveCube g colIndex config = generateHelpfulCube g config"
        by (simp add: generateAdaptiveCube_def)
      with generateHelpfulCube_positive [OF assms(2) one] show ?thesis by (simp only:)
    next
      case False
      with assms(1) have "generateAdaptiveCube g colIndex config =
                            Some (generateBalancedCube g config)"
        by (simp add: generateAdaptiveCube_def)
      moreover have "generateBalancedCube g config =
                       (fst (generateBalancedCube g config), g\<lparr>rnd := stl (rnd g)\<rparr>)"
        using generateBalancedCube_positive(2) [OF one, of g] by (metis prod.collapse)
      ultimately have "generateAdaptiveCube g colIndex config =
                         Some (fst (generateBalancedCube g config), g\<lparr>rnd := stl (rnd g)\<rparr>)"
        by simp
      with generateBalancedCube_positive(1) [OF one, of g] unit_draws_stl [OF assms(2)]
      show ?thesis by blast
    qed
    then obtain v rs' where r: "generateAdaptiveCube g colIndex config = Some (v, g\<lparr>rnd := rs'\<rparr>)"
      "1 \<le> v" "unit_draws rs'" by blast
    have "planned_positive (g\<lparr>rnd := rs'\<rparr>)"
      using assms(3) by (simp add: planned_positive_def)
    moreover have "unit_draws (rnd (g\<lparr>rnd := rs'\<rparr>))" using r(3) by simp
    ultimately show ?thesis unfolding a using r(1,2) by blast
  qed
next
  assume k: "planned_keys g"
  then show "planned_positive (reset g)" by (rule planned_positive_reset)
  from planned_positive_generateTarget [OF k assms(2,3)]
  show "\<exists>t g1. generateTarget g = Some (t, g1) \<and> planned_positive g1" by blast
qed


lemma new_game_planned_keys: "planned_keys (new_game rs)"
  by (simp add: planned_keys_def new_game_fields NUM_COLUMNS_def upt_rec)

lemma new_game_planned_positive: "planned_positive (new_game rs)"
  by (auto simp: planned_positive_def new_game_fields split: if_splits)

theorem generateNextCubeValue_positive_witness:
  "0 < length (columns (new_game (sconst 0))) \<and>
   unit_draws (rnd (new_game (sconst 0))) \<and>
   planned_positive (new_game (sconst 0)) \<and>
   planned_keys (new_game (sconst 0)) \<and>
   (\<exists>v g'. generateNextCubeValue (new_game (sconst 0)) 0 = Some (v, g') \<and> 1 \<le> v) \<and>
   (\<exists>t g1. generateTarget (new_game (sconst 0)) = Some (t, g1) \<and> planned_positive g1)"
proof -
  have h1: "0 < length (columns (new_game (sconst 0)))"
    by (simp add: new_game_fields)
  have h2: "unit_draws (rnd (new_game (sconst 0)))"
    by (simp add: new_game_fields unit_draws_sconst)
  note h3 = new_game_planned_positive [of "sconst 0"]
  note h4 = new_game_planned_keys [of "sconst 0"]
  from generateNextCubeValue_positive [OF h1 h2 h3] h4
  have "(\<exists>v g'. generateNextCubeValue (new_game (sconst 0)) 0 = Some (v, g') \<and> 1 \<le> v) \<and>
        (\<exists>t g1. generateTarget (new_game (sconst 0)) = Some (t, g1) \<and> planned_positive g1)"
    by blast
  with h1 h2 h3 h4 show ?thesis by (intro conjI) blast+
qed

section \<open>The full board and the selection of a cube\<close>

lemma chooseColumn_full:
  assumes "\<forall>col\<in>set (columns g). length col \<ge> MAX_COLUMN_HEIGHT" "unit_draws (rnd g)"
  shows "\<exists>v. chooseColumn g = Some (v, g\<lparr>rnd := stl (rnd g)\<rparr>) \<and> 0 \<le> v \<and> v \<le> 3"
proof -
  let ?heights = "map length (columns g)"
  let ?cands = "concat (map (\<lambda>i. if ?heights ! i \<ge> MAX_COLUMN_HEIGHT then []
                              else replicate (max 1 (MAX_COLUMN_HEIGHT - ?heights ! i)) i)
                      [0..<length (columns g)])"
  have "?cands = []"
    using assms(1) by (simp add: concat_eq_Nil_conv)
  then have c: "chooseColumn g =
                  (let (v, rs) = randomInt 0 (int NUM_COLUMNS - 1) (rnd g)
                   in Some (v, g\<lparr>rnd := rs\<rparr>))"
    unfolding chooseColumn_def Let_def by simp
  have "(0::int) \<le> int NUM_COLUMNS - 1" by (simp add: NUM_COLUMNS_def)
  from randomInt_range(1) [OF assms(2) this]
  show ?thesis unfolding c by (simp add: randomInt_def NUM_COLUMNS_def)
qed

lemma checkGameOver_full:
  "\<forall>col\<in>set (columns g). length col \<ge> MAX_COLUMN_HEIGHT \<Longrightarrow> checkGameOver g"
  by (auto simp: checkGameOver_def list_all_iff)

text \<open>
  Claim C7. In every state in which each of the 4 columns holds exactly 8 cubes, a spawn
  attempt by \<open>spawnNextCube\<close> ends the game and runs \<open>gameOver()\<close> once: apart from the one
  random draw of \<open>chooseColumn\<close>, the flag \<open>isPlaying\<close> and the count of \<open>gameOver()\<close> runs,
  the state is unchanged. No cube is added to, removed from or changed in any column, and
  no queue and no planned cube is consumed.
\<close>

theorem spawnNextCube_full_board:
  assumes "length (columns g) = NUM_COLUMNS"
    and "\<forall>col\<in>set (columns g). length col = MAX_COLUMN_HEIGHT"
    and "unit_draws (rnd g)"
  shows "\<exists>g'. spawnNextCube g dnow pnow = Some g' \<and>
           g' = g\<lparr>rnd := stl (rnd g), isPlaying := False, gameOverCalls := gameOverCalls g + 1\<rparr> \<and>
           columns g' = columns g \<and> queues g' = queues g \<and>
           plannedCubes g' = plannedCubes g \<and> idCounter g' = idCounter g \<and>
           \<not> isPlaying g' \<and> gameOverCalls g' = gameOverCalls g + 1"
proof -
  let ?g1 = "g\<lparr>rnd := stl (rnd g)\<rparr>"
  have full: "\<forall>col\<in>set (columns g). length col \<ge> MAX_COLUMN_HEIGHT"
    using assms(2) by simp
  from chooseColumn_full [OF full assms(3)] obtain v where
    v: "chooseColumn g = Some (v, ?g1)" "0 \<le> v" "v \<le> 3" by blast
  have inb: "nat v < length (columns ?g1)"
    using v(2,3) assms(1) by (simp add: NUM_COLUMNS_def)
  then have "columns ?g1 ! nat v \<in> set (columns g)" by simp
  with full have h: "length (columns ?g1 ! nat v) \<ge> MAX_COLUMN_HEIGHT" by blast
  have over: "checkGameOver ?g1"
    using full by (intro checkGameOver_full) simp
  have "spawnNextCube g dnow pnow = Some (gameOver ?g1)"
    unfolding spawnNextCube_def v(1) option.case prod.case
    using v(2) inb h over by simp
  then show ?thesis by (simp add: gameOver_def)
qed

text \<open>A running game with 8 cubes in each of the 4 columns.\<close>

definition full_board_example :: game where
  "full_board_example =
     (new_game (sconst 0))
       \<lparr>columns := map (\<lambda>c. map (\<lambda>r. (createCube 1 c 0 (8 * c + r))\<lparr>row := int r\<rparr>) [0..<8])
                      [0..<4],
        isPlaying := True\<rparr>"

theorem spawnNextCube_full_board_witness:
  "length (columns full_board_example) = NUM_COLUMNS \<and>
   map length (columns full_board_example) = [8, 8, 8, 8] \<and>
   unit_draws (rnd full_board_example) \<and>
   isPlaying full_board_example \<and>
   spawnNextCube full_board_example 0 0 =
     Some (full_board_example\<lparr>isPlaying := False, gameOverCalls := 1\<rparr>)"
proof -
  have h1: "length (columns full_board_example) = NUM_COLUMNS"
    by (simp add: full_board_example_def NUM_COLUMNS_def)
  have h2: "\<forall>col\<in>set (columns full_board_example). length col = MAX_COLUMN_HEIGHT"
    by (simp add: full_board_example_def MAX_COLUMN_HEIGHT_def)
  have r: "rnd full_board_example = sconst 0"
    by (simp add: full_board_example_def new_game_fields)
  have h3: "unit_draws (rnd full_board_example)"
    by (simp add: r unit_draws_sconst)
  have p: "isPlaying full_board_example" by (simp add: full_board_example_def)
  have c: "gameOverCalls full_board_example = 0"
    by (simp add: full_board_example_def new_game_def reset_def)
  from spawnNextCube_full_board [OF h1 h2 h3, of 0 0]
  have "spawnNextCube full_board_example 0 0 =
     Some (full_board_example\<lparr>isPlaying := False, gameOverCalls := 1\<rparr>)"
    by (simp add: r c)
  moreover have "map length (columns full_board_example) = [8, 8, 8, 8]"
    by (simp add: full_board_example_def upt_rec)
  ultimately show ?thesis using h1 h3 p by (intro conjI)
qed

text \<open>
  What \<open>_handleTap\<close> does with a tap: on a cube that is being removed or is falling it
  returns at once; on a cube that is neither, reached through a column and a row inside
  the field, it calls \<open>toggleCubeSelection\<close>; everywhere else it returns at once.
\<close>

lemma handleTap_blocked:
  assumes "removing (columns g ! nat (tap_colIndex ui px) ! nat (tap_clickRow ui py)) \<or>
           falling (columns g ! nat (tap_colIndex ui px) ! nat (tap_clickRow ui py))"
  shows "handleTap ui g px py now = Some g"
  using assms unfolding handleTap_def Let_def
  by auto

lemma handleTap_cases:
  "handleTap ui g px py now = Some g \<or>
   (nat (tap_colIndex ui px) < length (columns g) \<and>
    nat (tap_clickRow ui py) < length (columns g ! nat (tap_colIndex ui px)) \<and>
    \<not> removing (columns g ! nat (tap_colIndex ui px) ! nat (tap_clickRow ui py)) \<and>
    \<not> falling (columns g ! nat (tap_colIndex ui px) ! nat (tap_clickRow ui py)) \<and>
    handleTap ui g px py now =
      toggleCubeSelection g (nat (tap_colIndex ui px)) (nat (tap_clickRow ui py)) now)"
  unfolding handleTap_def Let_def
  by (auto simp: not_less)

lemma handleTap_toggles:
  assumes "cubeSize ui + columnGap ui \<noteq> 0" "cubeSize ui + cubeGap ui \<noteq> 0"
    and "0 \<le> tap_colIndex ui px" "tap_colIndex ui px < 4"
    and "px - offsetX ui - real_of_int (tap_colIndex ui px) * (cubeSize ui + columnGap ui)
           \<le> cubeSize ui"
    and "nat (tap_colIndex ui px) < length (columns g)"
    and "0 \<le> tap_clickRow ui py"
    and "nat (tap_clickRow ui py) < length (columns g ! nat (tap_colIndex ui px))"
    and "\<not> removing (columns g ! nat (tap_colIndex ui px) ! nat (tap_clickRow ui py))"
    and "\<not> falling (columns g ! nat (tap_colIndex ui px) ! nat (tap_clickRow ui py))"
  shows "handleTap ui g px py now =
           toggleCubeSelection g (nat (tap_colIndex ui px)) (nat (tap_clickRow ui py)) now"
  using assms unfolding handleTap_def Let_def NUM_COLUMNS_def
  by (auto simp: not_less)

text \<open>
  Claim C5, amended. For every cube of the board that is being removed (\<open>removing\<close> set),
  falling or not, \<open>toggleCubeSelection\<close> on its column and position returns without an
  error and leaves the whole game state unchanged: the \<open>selected\<close> flag keeps its value and
  no match is evaluated. The \<open>falling\<close> flag alone does not stop \<open>toggleCubeSelection\<close>; the
  tap handler \<open>_handleTap\<close> of the user interface, its only caller, is what leaves falling
  cubes out: for every field geometry and every tap whose column and row, as the handler
  computes them, are those of a cube that is being removed or is falling, \<open>_handleTap\<close>
  returns without an error and leaves the whole game state unchanged. And every tap either
  leaves the game state unchanged or is \<open>toggleCubeSelection\<close> on a cube of the board that
  is neither being removed nor falling.
\<close>

theorem selection_of_removing_or_falling_cube:
  "(colIdx < length (columns g) \<and> rowIdx < length (columns g ! colIdx) \<and>
    removing (columns g ! colIdx ! rowIdx) \<longrightarrow>
      toggleCubeSelection g colIdx rowIdx now = Some g) \<and>
   (0 \<le> tap_colIndex ui px \<and> nat (tap_colIndex ui px) < length (columns g) \<and>
    0 \<le> tap_clickRow ui py \<and>
    nat (tap_clickRow ui py) < length (columns g ! nat (tap_colIndex ui px)) \<and>
    (removing (columns g ! nat (tap_colIndex ui px) ! nat (tap_clickRow ui py)) \<or>
     falling (columns g ! nat (tap_colIndex ui px) ! nat (tap_clickRow ui py))) \<longrightarrow>
      handleTap ui g px py now = Some g) \<and>
   (handleTap ui g px py now = Some g \<or>
    (nat (tap_colIndex ui px) < length (columns g) \<and>
     nat (tap_clickRow ui py) < length (columns g ! nat (tap_colIndex ui px)) \<and>
     \<not> removing (columns g ! nat (tap_colIndex ui px) ! nat (tap_clickRow ui py)) \<and>
     \<not> falling (columns g ! nat (tap_colIndex ui px) ! nat (tap_clickRow ui py)) \<and>
     handleTap ui g px py now =
       toggleCubeSelection g (nat (tap_colIndex ui px)) (nat (tap_clickRow ui py)) now))"
proof (intro conjI impI)
  assume "colIdx < length (columns g) \<and> rowIdx < length (columns g ! colIdx) \<and>
    removing (columns g ! colIdx ! rowIdx)"
  then show "toggleCubeSelection g colIdx rowIdx now = Some g"
    by (simp add: toggleCubeSelection_def)
next
  assume "0 \<le> tap_colIndex ui px \<and> nat (tap_colIndex ui px) < length (columns g) \<and>
    0 \<le> tap_clickRow ui py \<and>
    nat (tap_clickRow ui py) < length (columns g ! nat (tap_colIndex ui px)) \<and>
    (removing (columns g ! nat (tap_colIndex ui px) ! nat (tap_clickRow ui py)) \<or>
     falling (columns g ! nat (tap_colIndex ui px) ! nat (tap_clickRow ui py)))"
  then have "removing (columns g ! nat (tap_colIndex ui px) ! nat (tap_clickRow ui py)) \<or>
     falling (columns g ! nat (tap_colIndex ui px) ! nat (tap_clickRow ui py))"
    by (elim conjE)
  then show "handleTap ui g px py now = Some g" by (rule handleTap_blocked)
next
  show "handleTap ui g px py now = Some g \<or>
    (nat (tap_colIndex ui px) < length (columns g) \<and>
     nat (tap_clickRow ui py) < length (columns g ! nat (tap_colIndex ui px)) \<and>
     \<not> removing (columns g ! nat (tap_colIndex ui px) ! nat (tap_clickRow ui py)) \<and>
     \<not> falling (columns g ! nat (tap_colIndex ui px) ! nat (tap_clickRow ui py)) \<and>
     handleTap ui g px py now =
       toggleCubeSelection g (nat (tap_colIndex ui px)) (nat (tap_clickRow ui py)) now)"
    by (rule handleTap_cases)
qed

text \<open>
  Claim C5 fails as stated for a cube that is falling and not being removed: on a board
  with one falling cube of value 3 and the current target 7, \<open>toggleCubeSelection\<close> on the
  cube sets its \<open>selected\<close> flag, so the state changes.
\<close>

definition falling_example :: game where
  "falling_example =
     (new_game (sconst 0))
       \<lparr>columns := [[(createCube 3 0 0 0)\<lparr>row := 0, falling := True, fallFrom := 10, fallTo := 0\<rparr>],
                    [], [], []],
        targets := [7, 9, 5], isPlaying := True\<rparr>"

theorem toggleCubeSelection_falling_counterexample:
  "falling (columns falling_example ! 0 ! 0) \<and>
   \<not> selected (columns falling_example ! 0 ! 0) \<and>
   toggleCubeSelection falling_example 0 0 0 =
     Some (falling_example
             \<lparr>columns := [[(createCube 3 0 0 0)\<lparr>row := 0, falling := True, fallFrom := 10,
                                                fallTo := 0, selected := True\<rparr>],
                          [], [], []]\<rparr>) \<and>
   toggleCubeSelection falling_example 0 0 0 \<noteq> Some falling_example"
proof -
  let ?g' = "falling_example
             \<lparr>columns := [[(createCube 3 0 0 0)\<lparr>row := 0, falling := True, fallFrom := 10,
                                                fallTo := 0, selected := True\<rparr>],
                          [], [], []]\<rparr>"
  have a: "falling (columns falling_example ! 0 ! 0)"
    and b: "\<not> selected (columns falling_example ! 0 ! 0)"
    by (simp_all add: falling_example_def createCube_def)
  have r: "toggleCubeSelection falling_example 0 0 0 = Some ?g'"
    by (simp add: falling_example_def toggleCubeSelection_def checkTarget_def
          getSelectedSum_def createCube_def)
  have s: "selected (columns ?g' ! 0 ! 0)" by simp
  have "?g' \<noteq> falling_example"
  proof
    assume "?g' = falling_example"
    then have "selected (columns ?g' ! 0 ! 0) = selected (columns falling_example ! 0 ! 0)"
      by (rule arg_cong)
    with s b show False by (simp only:)
  qed
  then have n: "toggleCubeSelection falling_example 0 0 0 \<noteq> Some falling_example"
    unfolding r by simp
  from a b r n show ?thesis by (intro conjI)
qed

text \<open>
  The same board with the cube being removed while it falls, and the sizes that
  \<open>_onResize\<close> computes for a field of 360 by 640 pixels. The tap at (60, 600) is in
  column 0 and row 0.
\<close>

definition removing_example :: game where
  "removing_example =
     (new_game (sconst 0))
       \<lparr>columns := [[(createCube 3 0 0 0)\<lparr>row := 0, falling := True, removing := True\<rparr>],
                    [], [], []],
        targets := [7, 9, 5], isPlaying := True\<rparr>"

definition tap_geometry :: ui_geometry where
  "tap_geometry =
     \<lparr>cubeSize = 68, cubeGap = 5, columnGap = 10, fieldHeight = 584, offsetX = 29, offsetY = 46\<rparr>"

theorem selection_of_removing_or_falling_cube_witness:
  "removing (columns removing_example ! 0 ! 0) \<and>
   toggleCubeSelection removing_example 0 0 0 = Some removing_example \<and>
   tap_colIndex tap_geometry 60 = 0 \<and>
   tap_clickRow tap_geometry 600 = 0 \<and>
   falling (columns falling_example ! 0 ! 0) \<and>
   handleTap tap_geometry falling_example 60 600 0 = Some falling_example"
proof -
  have h1: "0 < length (columns removing_example)"
    and h2: "0 < length (columns removing_example ! 0)"
    and h3: "removing (columns removing_example ! 0 ! 0)"
    by (simp_all add: removing_example_def)
  have c: "tap_colIndex tap_geometry 60 = 0"
    by (simp add: tap_colIndex_def tap_geometry_def)
  have r: "tap_clickRow tap_geometry 600 = 0"
    by (simp add: tap_clickRow_def tap_geometry_def)
  have f1: "0 < length (columns falling_example)"
    and f2: "0 < length (columns falling_example ! 0)"
    and f3: "falling (columns falling_example ! 0 ! 0)"
    by (simp_all add: falling_example_def)
  from selection_of_removing_or_falling_cube
         [of 0 removing_example 0 0 tap_geometry 60 600] h1 h2 h3
  have a: "toggleCubeSelection removing_example 0 0 0 = Some removing_example"
    by (simp only: simp_thms)
  from selection_of_removing_or_falling_cube
         [of 0 falling_example 0 0 tap_geometry 60 600] f1 f2 f3
  have b: "handleTap tap_geometry falling_example 60 600 0 = Some falling_example"
    by (simp add: c r)
  from h3 a c r f3 b show ?thesis by (intro conjI)
qed

section \<open>Matching: points and the combo count\<close>

text \<open>
  \<open>refs_ok\<close>: the matched cubes are cubes of the board, each listed once. \<open>columns_ok\<close>:
  every cube carries the index of the column that holds it, as \<open>createCube(value, col)\<close>
  followed by \<open>columns[col].push(cube)\<close> makes it. \<open>cnt\<close> reads a counter of \<open>colCounts\<close>.
\<close>

definition refs_ok :: "game \<Rightarrow> cube_ref list \<Rightarrow> bool" where
  "refs_ok g cubes =
     (distinct cubes \<and>
      (\<forall>r\<in>set cubes. fst r < length (columns g) \<and> snd r < length (columns g ! fst r)))"

definition columns_ok :: "game \<Rightarrow> bool" where
  "columns_ok g = (\<forall>c<length (columns g). \<forall>cube\<in>set (columns g ! c). column cube = c)"

definition cnt :: "(nat \<times> nat) list \<Rightarrow> nat \<Rightarrow> nat" where
  "cnt m c = (case map_of m c of None \<Rightarrow> 0 | Some n \<Rightarrow> n)"

lemma deref_column:
  assumes "fst r < length (columns g)" "snd r < length (columns g ! fst r)" "columns_ok g"
  shows "\<exists>cube. deref g r = Some cube \<and> column cube = fst r"
proof -
  have "columns g ! fst r ! snd r \<in> set (columns g ! fst r)"
    using assms(2) by (rule nth_mem)
  with assms(1,3) have "column (columns g ! fst r ! snd r) = fst r"
    unfolding columns_ok_def by blast
  with assms(1,2) show ?thesis by (simp add: deref_def)
qed

lemma count_columns_result:
  assumes "\<forall>r\<in>set refs. fst r < length (columns g) \<and> snd r < length (columns g ! fst r)"
    and "columns_ok g" and "distinct (map fst acc)"
  shows "\<exists>m. count_columns g refs acc = Some m \<and> distinct (map fst m) \<and>
              fst ` set m = fst ` set acc \<union> fst ` set refs \<and>
              (\<forall>c. cnt m c = cnt acc c + length (filter (\<lambda>r. fst r = c) refs))"
  using assms(1,3)
proof (induction refs arbitrary: acc)
  case Nil
  then show ?case by simp
next
  case (Cons r refs)
  from Cons.prems(1) have v: "fst r < length (columns g)" "snd r < length (columns g ! fst r)"
    by simp_all
  from deref_column [OF v assms(2)] obtain cube where
    cube: "deref g r = Some cube" "column cube = fst r" by blast
  let ?acc = "AList.update (fst r) (cnt acc (fst r) + 1) acc"
  have step: "count_columns g (r # refs) acc = count_columns g refs ?acc"
    by (simp add: cube cnt_def)
  have d: "distinct (map fst ?acc)" using Cons.prems(2) by (rule distinct_update)
  have k: "fst ` set ?acc = insert (fst r) (fst ` set acc)" by (simp add: dom_update)
  have c: "cnt ?acc c = (if c = fst r then cnt acc c + 1 else cnt acc c)" for c
    by (simp add: cnt_def update_conv')
  from Cons.prems(1) have "\<forall>r\<in>set refs. fst r < length (columns g) \<and>
         snd r < length (columns g ! fst r)" by simp
  from Cons.IH [OF this d] obtain m where
    m: "count_columns g refs ?acc = Some m" "distinct (map fst m)"
    "fst ` set m = fst ` set ?acc \<union> fst ` set refs"
    "\<forall>c. cnt m c = cnt ?acc c + length (filter (\<lambda>r. fst r = c) refs)"
    by blast
  have "fst ` set m = fst ` set acc \<union> fst ` set (r # refs)"
    using m(3) k by auto
  moreover have "\<forall>c. cnt m c = cnt acc c + length (filter (\<lambda>x. fst x = c) (r # refs))"
    using m(4) c by simp
  ultimately show ?case unfolding step using m(1,2) by blast
qed

lemma count_cleared_result:
  assumes "\<forall>e\<in>set m. fst e < length (columns g)"
  shows "count_cleared g m =
           Some (length (filter (\<lambda>e. snd e = length (columns g ! fst e)) m))"
  using assms
proof (induction m)
  case Nil
  then show ?case by simp
next
  case (Cons e m)
  obtain c n where e: "e = (c, n)" by (cases e)
  from Cons.prems have "c < length (columns g)" by (simp add: e)
  moreover from Cons.prems have "\<forall>e\<in>set m. fst e < length (columns g)" by simp
  note Cons.IH [OF this]
  ultimately show ?case by (simp add: e)
qed

lemma column_fully_matched:
  assumes "refs_ok g cubes"
  shows "(c \<in> fst ` set cubes \<and>
          length (filter (\<lambda>r. fst r = c) cubes) = length (columns g ! c)) \<longleftrightarrow>
         (c < length (columns g) \<and> columns g ! c \<noteq> [] \<and>
          (\<forall>i<length (columns g ! c). (c, i) \<in> set cubes))"
proof -
  let ?S = "{i. (c, i) \<in> set cubes}"
  let ?f = "filter (\<lambda>r. fst r = c) cubes"
  let ?len = "length (columns g ! c)"
  from assms have dist: "distinct cubes"
    and valid: "\<forall>r\<in>set cubes. fst r < length (columns g) \<and> snd r < length (columns g ! fst r)"
    unfolding refs_ok_def by simp_all
  have inj: "inj_on snd (set ?f)"
    by (rule inj_onI) (auto simp: prod_eq_iff)
  have "distinct (map snd ?f)"
    using dist inj by (simp add: distinct_map)
  moreover have "set (map snd ?f) = ?S" by force
  ultimately have card: "card ?S = length ?f"
    by (metis distinct_card length_map)
  have sub: "?S \<subseteq> {..<?len}" using valid by force
  show ?thesis
  proof
    assume a: "c \<in> fst ` set cubes \<and> length ?f = ?len"
    then obtain i where i: "(c, i) \<in> set cubes" by force
    with valid have c: "c < length (columns g)" and "i < ?len" by force+
    then have ne: "columns g ! c \<noteq> []" by auto
    from a card have "card ?S = card {..<?len}" by simp
    with sub have "?S = {..<?len}" by (intro card_subset_eq) simp_all
    then have "\<forall>i<?len. (c, i) \<in> set cubes" by blast
    with c ne show "c < length (columns g) \<and> columns g ! c \<noteq> [] \<and>
          (\<forall>i<?len. (c, i) \<in> set cubes)" by blast
  next
    assume a: "c < length (columns g) \<and> columns g ! c \<noteq> [] \<and>
          (\<forall>i<?len. (c, i) \<in> set cubes)"
    then have "(c, 0) \<in> set cubes" by simp
    then have m: "c \<in> fst ` set cubes" by force
    from a sub have "?S = {..<?len}" by blast
    with card have "length ?f = ?len" by simp
    with m show "c \<in> fst ` set cubes \<and> length ?f = ?len" by blast
  qed
qed

lemma checkColumnClears_result:
  assumes "refs_ok g cubes" "columns_ok g"
  shows "\<exists>k. checkColumnClears g cubes = Some k \<and>
           (0 < k \<longleftrightarrow>
              (\<exists>c<length (columns g). columns g ! c \<noteq> [] \<and>
                  (\<forall>i<length (columns g ! c). (c, i) \<in> set cubes)))"
proof -
  from assms(1) have valid:
    "\<forall>r\<in>set cubes. fst r < length (columns g) \<and> snd r < length (columns g ! fst r)"
    unfolding refs_ok_def by simp
  have "distinct (map fst ([] :: (nat \<times> nat) list))" by simp
  from count_columns_result [OF valid assms(2) this] obtain m where
    m: "count_columns g cubes [] = Some m" "distinct (map fst m)"
    "fst ` set m = fst ` set cubes"
    "\<forall>c. cnt m c = length (filter (\<lambda>r. fst r = c) cubes)"
    by (auto simp: cnt_def)
  have keys: "\<forall>e\<in>set m. fst e < length (columns g)"
  proof
    fix e assume "e \<in> set m"
    then have "fst e \<in> fst ` set cubes" using m(3) by force
    with valid show "fst e < length (columns g)" by force
  qed
  let ?k = "length (filter (\<lambda>e. snd e = length (columns g ! fst e)) m)"
  have r: "checkColumnClears g cubes = Some ?k"
    by (simp add: checkColumnClears_def m(1) count_cleared_result [OF keys])
  have entry: "(c, n) \<in> set m \<longleftrightarrow>
                 c \<in> fst ` set cubes \<and> n = length (filter (\<lambda>r. fst r = c) cubes)" for c n
  proof
    assume a: "(c, n) \<in> set m"
    then have "map_of m c = Some n" using m(2) by simp
    then have "cnt m c = n" by (simp add: cnt_def)
    with m(4) have "n = length (filter (\<lambda>r. fst r = c) cubes)" by simp
    moreover from a have "c \<in> fst ` set cubes" using m(3) by force
    ultimately show "c \<in> fst ` set cubes \<and> n = length (filter (\<lambda>r. fst r = c) cubes)"
      by blast
  next
    assume a: "c \<in> fst ` set cubes \<and> n = length (filter (\<lambda>r. fst r = c) cubes)"
    then have "c \<in> fst ` set m" using m(3) by simp
    then obtain n' where n': "(c, n') \<in> set m" by force
    then have "map_of m c = Some n'" using m(2) by simp
    then have "cnt m c = n'" by (simp add: cnt_def)
    with m(4) a have "n' = n" by simp
    with n' show "(c, n) \<in> set m" by simp
  qed
  have "0 < ?k \<longleftrightarrow> (\<exists>e\<in>set m. snd e = length (columns g ! fst e))"
    by (simp add: filter_empty_conv)
  also have "\<dots> \<longleftrightarrow> (\<exists>c. c \<in> fst ` set cubes \<and>
                 length (filter (\<lambda>r. fst r = c) cubes) = length (columns g ! c))"
    using entry by (metis prod.collapse fst_conv snd_conv)
  also have "\<dots> \<longleftrightarrow> (\<exists>c<length (columns g). columns g ! c \<noteq> [] \<and>
                  (\<forall>i<length (columns g ! c). (c, i) \<in> set cubes))"
    using column_fully_matched [OF assms(1)] by blast
  finally show ?thesis using r by blast
qed


lemma checkLevelUp_fields:
  "score (checkLevelUp g) = score g" "comboCount (checkLevelUp g) = comboCount g"
  "lastMatchTime (checkLevelUp g) = lastMatchTime g"
  by (simp_all add: checkLevelUp_def Let_def)

lemma onTargetMatch_result:
  assumes t: "targets g = t # rest"
    and ok: "refs_ok g cubes" "columns_ok g"
    and ne: "cubes \<noteq> []"
    and pk: "planned_keys g" and u: "unit_draws (rnd g)"
  shows "\<exists>g' k. onTargetMatch g cubes now = Some g' \<and>
           (0 < k \<longleftrightarrow>
              (\<exists>c<length (columns g). columns g ! c \<noteq> [] \<and>
                  (\<forall>i<length (columns g ! c). (c, i) \<in> set cubes))) \<and>
           comboCount g' =
             (if now - lastMatchTime g < COMBO_TIMEOUT \<and> lastMatchTime g > 0
              then comboCount g + 1 else 1) \<and>
           lastMatchTime g' = now \<and>
           score g' = score g + match_points t (length cubes)
                        (match_multiplier (comboCount g') t k)"
proof -
  let ?cc = "if now - lastMatchTime g < COMBO_TIMEOUT \<and> lastMatchTime g > 0
             then comboCount g + 1 else 1"
  let ?g1 = "g\<lparr>comboCount := ?cc, lastMatchTime := now\<rparr>"
  have "refs_ok ?g1 cubes" using ok(1) by (simp add: refs_ok_def)
  moreover have "columns_ok ?g1" using ok(2) by (simp add: columns_ok_def)
  ultimately obtain k where
    k: "checkColumnClears ?g1 cubes = Some k"
    and kc: "0 < k \<longleftrightarrow>
              (\<exists>c<length (columns ?g1). columns ?g1 ! c \<noteq> [] \<and>
                  (\<forall>i<length (columns ?g1 ! c). (c, i) \<in> set cubes))"
    using checkColumnClears_result [of ?g1 cubes] by blast
  let ?points = "match_points t (length cubes) (match_multiplier (comboCount ?g1) t k)"
  let ?g2 = "?g1\<lparr>score := score ?g1 + ?points\<rparr>"
  let ?g3 = "?g2\<lparr>columns := mark_removing cubes (columns ?g2), targets := rest\<rparr>"
  have "planned_keys ?g3" using pk by (simp add: planned_keys_def)
  moreover have "unit_draws (rnd ?g3)" using u by simp
  ultimately obtain tt g4 where
    gt: "generateTarget ?g3 = Some (tt, g4)"
    and frame: "g4 = ?g3\<lparr>plannedCubes := plannedCubes g4, rnd := rnd g4\<rparr>"
    using generateTarget_total [of ?g3] by blast
  let ?g' = "checkLevelUp (g4\<lparr>targets := targets g4 @ [tt],
                              targetsCleared := targetsCleared g4 + 1\<rparr>)"
  have ret: "onTargetMatch g cubes now = Some ?g'"
    unfolding onTargetMatch_def t list.case Let_def k option.case
    using ne gt by simp
  have s4: "score g4 = score g + ?points"
    using arg_cong [OF frame, of score] by simp
  have c4: "comboCount g4 = ?cc"
    using arg_cong [OF frame, of comboCount] by simp
  have l4: "lastMatchTime g4 = now"
    using arg_cong [OF frame, of lastMatchTime] by simp
  have c': "comboCount ?g' = ?cc" by (simp add: checkLevelUp_fields c4)
  have l': "lastMatchTime ?g' = now" by (simp add: checkLevelUp_fields l4)
  have "score ?g' = score g + ?points" by (simp add: checkLevelUp_fields s4)
  also have "comboCount ?g1 = comboCount ?g'" unfolding c' by simp
  finally have s': "score ?g' = score g + match_points t (length cubes)
                        (match_multiplier (comboCount ?g') t k)" .
  from kc have kc': "0 < k \<longleftrightarrow>
              (\<exists>c<length (columns g). columns g ! c \<noteq> [] \<and>
                  (\<forall>i<length (columns g ! c). (c, i) \<in> set cubes))" by simp
  show ?thesis
    by (intro exI [of _ ?g'] exI [of _ k] conjI) (fact ret kc' c' l' s')+
qed


lemma getSelectedCubes_mem:
  "(c, i) \<in> set (getSelectedCubes g) \<longleftrightarrow>
     c < length (columns g) \<and> i < length (columns g ! c) \<and>
     selected (columns g ! c ! i) \<and> \<not> removing (columns g ! c ! i)"
  by (auto simp: getSelectedCubes_def)

lemma distinct_by_column:
  assumes "\<And>c. distinct (f c)" "\<And>c r. r \<in> set (f c) \<Longrightarrow> fst r = c"
  shows "distinct (concat (map f [0..<n]))"
proof (induction n)
  case 0
  show ?case by simp
next
  case (Suc n)
  have "set (concat (map f [0..<n])) \<inter> set (f n) = {}"
  proof (rule ccontr)
    assume "\<not> ?thesis"
    then obtain r c where "r \<in> set (f c)" "c < n" "r \<in> set (f n)" by auto
    with assms(2) show False by (metis less_irrefl)
  qed
  with Suc assms(1) show ?case by simp
qed

lemma getSelectedCubes_refs_ok: "refs_ok g (getSelectedCubes g)"
proof -
  have "distinct (getSelectedCubes g)"
    unfolding getSelectedCubes_def
    by (rule distinct_by_column) (auto simp: distinct_map inj_on_def)
  then show ?thesis
    unfolding refs_ok_def using getSelectedCubes_mem [of _ _ g] by auto
qed

text \<open>
  The multiplier of the claim, in its words: it starts at 1, is multiplied by
  \<open>1 + (comboCount - 1) * 0.5\<close> when the combo count is at least 2, then by 3 when the
  target is at least 25 or else by 2 when it is at least 20, then by 2 when a column was
  cleared.
\<close>

definition claimed_multiplier :: "int \<Rightarrow> int \<Rightarrow> bool \<Rightarrow> real" where
  "claimed_multiplier combo target columnCleared =
     (if combo \<ge> 2 then 1 + (real_of_int combo - 1) * 0.5 else 1) *
     (if target \<ge> 25 then 3 else if target \<ge> 20 then 2 else 1) *
     (if columnCleared then 2 else 1)"

lemma match_multiplier_claimed:
  "match_multiplier combo target k = claimed_multiplier combo target (0 < k)"
  by (simp add: match_multiplier_def claimed_multiplier_def Let_def)

text \<open>
  Claim C3, amended. For every match on the target \<open>t\<close> with \<open>n\<close> selected cubes of the
  board, \<open>onTargetMatch\<close> returns and adds \<open>floor(t * n * m)\<close> to the score, where \<open>m\<close> starts
  at 1, is multiplied by \<open>1 + (comboCount - 1) * 0.5\<close> when the combo count after its update
  is at least 2, then by 3 if \<open>t \<ge> 25\<close> or else by 2 if \<open>t \<ge> 20\<close>, then by 2 if at least
  one column that holds a cube has all its cubes among the matched ones. In particular
  the target 20 with 2 cubes, combo count 1 and no column clear gives 80 points, and the
  target 25 with 3 cubes, combo count 3 and no column clear gives 450 points.
\<close>

theorem onTargetMatch_points:
  assumes "targets g = t # rest"
    and "refs_ok g cubes" and "columns_ok g" and "cubes \<noteq> []"
    and "planned_keys g" and "unit_draws (rnd g)"
  shows "(\<exists>g'. onTargetMatch g cubes now = Some g' \<and>
            comboCount g' =
              (if now - lastMatchTime g < 5000 \<and> lastMatchTime g > 0
               then comboCount g + 1 else 1) \<and>
            score g' = score g +
              \<lfloor>real_of_int t * real (length cubes) *
                 claimed_multiplier (comboCount g') t
                   (\<exists>c<length (columns g). columns g ! c \<noteq> [] \<and>
                       (\<forall>i<length (columns g ! c). (c, i) \<in> set cubes))\<rfloor>) \<and>
         match_points 20 2 (match_multiplier 1 20 0) = 80 \<and>
         match_points 25 3 (match_multiplier 3 25 0) = 450"
proof (intro conjI)
  from onTargetMatch_result [OF assms, of now] obtain g' k where
    r: "onTargetMatch g cubes now = Some g'"
    and k: "0 < k \<longleftrightarrow>
              (\<exists>c<length (columns g). columns g ! c \<noteq> [] \<and>
                  (\<forall>i<length (columns g ! c). (c, i) \<in> set cubes))"
    and c: "comboCount g' =
             (if now - lastMatchTime g < COMBO_TIMEOUT \<and> lastMatchTime g > 0
              then comboCount g + 1 else 1)"
    and s: "score g' = score g + match_points t (length cubes)
                        (match_multiplier (comboCount g') t k)"
    by blast
  have c': "comboCount g' =
              (if now - lastMatchTime g < 5000 \<and> lastMatchTime g > 0
               then comboCount g + 1 else 1)"
    using c by (simp add: COMBO_TIMEOUT_def)
  have s': "score g' = score g +
              \<lfloor>real_of_int t * real (length cubes) *
                 claimed_multiplier (comboCount g') t
                   (\<exists>c<length (columns g). columns g ! c \<noteq> [] \<and>
                       (\<forall>i<length (columns g ! c). (c, i) \<in> set cubes))\<rfloor>"
    unfolding s match_points_def match_multiplier_claimed k ..
  show "\<exists>g'. onTargetMatch g cubes now = Some g' \<and>
            comboCount g' =
              (if now - lastMatchTime g < 5000 \<and> lastMatchTime g > 0
               then comboCount g + 1 else 1) \<and>
            score g' = score g +
              \<lfloor>real_of_int t * real (length cubes) *
                 claimed_multiplier (comboCount g') t
                   (\<exists>c<length (columns g). columns g ! c \<noteq> [] \<and>
                       (\<forall>i<length (columns g ! c). (c, i) \<in> set cubes))\<rfloor>"
    by (intro exI [of _ g'] conjI) (fact r c' s')+
  show "match_points 20 2 (match_multiplier 1 20 0) = 80"
    by (simp add: match_points_def match_multiplier_def)
  show "match_points 25 3 (match_multiplier 3 25 0) = 450"
    by (simp add: match_points_def match_multiplier_def)
qed

text \<open>
  Claim C10. For the first match after a reset (\<open>lastMatchTime\<close> is 0, as \<open>reset()\<close> leaves
  it), \<open>onTargetMatch\<close> returns with the combo count 1, for every timestamp of the match,
  also one below the combo window of 5000 ms: the count is set, not incremented.
\<close>

theorem first_match_combo_is_one:
  assumes "lastMatchTime g = 0"
    and "targets g = t # rest"
    and "refs_ok g cubes" and "columns_ok g" and "cubes \<noteq> []"
    and "planned_keys g" and "unit_draws (rnd g)"
  shows "(\<exists>g'. onTargetMatch g cubes now = Some g' \<and> comboCount g' = 1 \<and>
               lastMatchTime g' = now) \<and>
         lastMatchTime (reset g0) = 0 \<and> comboCount (reset g0) = 0"
proof (intro conjI)
  from onTargetMatch_result [OF assms(2-7), of now] obtain g' where
    r: "onTargetMatch g cubes now = Some g'"
    and c: "comboCount g' =
             (if now - lastMatchTime g < COMBO_TIMEOUT \<and> lastMatchTime g > 0
              then comboCount g + 1 else 1)"
    and l: "lastMatchTime g' = now"
    by blast
  from c assms(1) have "comboCount g' = 1" by simp
  with r l show "\<exists>g'. onTargetMatch g cubes now = Some g' \<and> comboCount g' = 1 \<and>
               lastMatchTime g' = now" by blast
  show "lastMatchTime (reset g0) = 0" by (simp add: reset_def)
  show "comboCount (reset g0) = 0" by (simp add: reset_def)
qed


text \<open>
  A game for the examples: at level 7, the bottom two cubes of column 0 (values 8 and 12)
  are selected under a third cube, the current target is 20, and no match was made yet.
\<close>

definition match_example :: game where
  "match_example =
     (new_game (sconst 0))
       \<lparr>columns := [[(createCube 8 0 0 0)\<lparr>row := 0, selected := True\<rparr>,
                     (createCube 12 0 0 1)\<lparr>row := 1, selected := True\<rparr>,
                     (createCube 3 0 0 2)\<lparr>row := 2\<rparr>],
                    [], [], []],
        targets := [20, 9, 11], level := 7, isPlaying := True\<rparr>"

lemma match_example_facts:
  "targets match_example = 20 # [9, 11]"
  "getSelectedCubes match_example = [(0, 0), (0, 1)]"
  "columns_ok match_example"
  "planned_keys match_example"
  "unit_draws (rnd match_example)"
  "lastMatchTime match_example = 0"
  "score match_example = 0"
  "comboCount match_example = 0"
proof -
  show "targets match_example = 20 # [9, 11]" by (simp add: match_example_def)
  have u4: "[0..<4] = [0, 1, 2, 3::nat]" and u3: "[0..<3] = [0, 1, 2::nat]"
    by (simp_all add: upt_rec)
  show "getSelectedCubes match_example = [(0, 0), (0, 1)]"
    by (simp add: match_example_def getSelectedCubes_def createCube_def u4 u3)
  have "\<forall>c<4. \<forall>cube\<in>set (columns match_example ! c). column cube = c"
  proof (intro allI impI)
    fix c :: nat assume "c < 4"
    then consider "c = 0" | "c = 1" | "c = 2" | "c = 3" by linarith
    then show "\<forall>cube\<in>set (columns match_example ! c). column cube = c"
      by cases (simp_all add: match_example_def createCube_def)
  qed
  then show "columns_ok match_example"
    by (simp add: columns_ok_def match_example_def)
  show "planned_keys match_example"
    using new_game_planned_keys [of "sconst 0"]
    by (simp add: planned_keys_def match_example_def)
  show "unit_draws (rnd match_example)"
    by (simp add: match_example_def new_game_fields unit_draws_sconst)
  show "lastMatchTime match_example = 0"
    by (simp add: match_example_def new_game_fields)
  show "score match_example = 0"
    by (simp add: match_example_def new_game_def reset_def)
  show "comboCount match_example = 0"
    by (simp add: match_example_def new_game_fields)
qed

lemma match_example_columns:
  "length (columns match_example) = 4"
  "length (columns match_example ! 0) = 3"
  "columns match_example ! 1 = []"
  "columns match_example ! Suc 0 = []"
  "columns match_example ! 2 = []"
  "columns match_example ! 3 = []"
  by (simp_all add: match_example_def)

lemma match_example_no_clear:
  "\<not> (\<exists>c<length (columns match_example). columns match_example ! c \<noteq> [] \<and>
         (\<forall>i<length (columns match_example ! c). (c, i) \<in> set [(0, 0), (0, 1)]))"
proof
  assume "\<exists>c<length (columns match_example). columns match_example ! c \<noteq> [] \<and>
         (\<forall>i<length (columns match_example ! c). (c, i) \<in> set [(0, 0), (0, 1)])"
  then obtain c where c: "c < length (columns match_example)"
    "columns match_example ! c \<noteq> []"
    "\<forall>i<length (columns match_example ! c). (c, i) \<in> set [(0, 0), (0, 1)]"
    by blast
  from c(1) have "c < 4" by (simp only: match_example_columns)
  then consider "c = 0" | "c = 1" | "c = 2" | "c = 3" by linarith
  then show False
  proof cases
    case 1
    have "(2::nat) < length (columns match_example ! 0)"
      by (simp add: match_example_columns)
    with c(3) have "(0, 2) \<in> set [(0::nat, 0::nat), (0, 1)]"
      unfolding 1 by blast
    then show False by simp
  next
    case 2
    with c(2) show False by (simp add: match_example_columns)
  next
    case 3
    with c(2) show False by (simp add: match_example_columns)
  next
    case 4
    with c(2) show False by (simp add: match_example_columns)
  qed
qed


lemma match_example_refs:
  "refs_ok match_example (getSelectedCubes match_example)"
  "getSelectedCubes match_example \<noteq> []"
  "length (getSelectedCubes match_example) = 2"
  using getSelectedCubes_refs_ok [of match_example]
  by (simp_all add: match_example_facts(2))

text \<open>
  Claim C3 fails as stated at its own first example. With the target 20, the 2 selected
  cubes 8 and 12, no earlier match (the combo count becomes 1) and no column emptied by
  the match, the target is at least 20, so the multiplier is 2 and the match gives
  \<open>floor(20 * 2 * 2) = 80\<close> points, not 40. The columns 1 to 3 of this board hold no cube:
  a column without cubes does not count as cleared.
\<close>

theorem onTargetMatch_points_counterexample:
  "match_points 20 2 (match_multiplier 1 20 0) = 80 \<and>
   map_option score (onTargetMatch match_example (getSelectedCubes match_example) 1000) = Some 80 \<and>
   map_option comboCount (onTargetMatch match_example (getSelectedCubes match_example) 1000)
     = Some 1 \<and>
   columns match_example ! 1 = []"
proof -
  have a: "match_points 20 2 (match_multiplier 1 20 0) = 80"
    by (simp add: match_points_def match_multiplier_def)
  from onTargetMatch_result [OF match_example_facts(1) match_example_refs(1)
         match_example_facts(3) match_example_refs(2) match_example_facts(4,5), of 1000]
  obtain g' k where
    r: "onTargetMatch match_example (getSelectedCubes match_example) 1000 = Some g'"
    and k: "0 < k \<longleftrightarrow>
              (\<exists>c<length (columns match_example). columns match_example ! c \<noteq> [] \<and>
                  (\<forall>i<length (columns match_example ! c).
                      (c, i) \<in> set (getSelectedCubes match_example)))"
    and c: "comboCount g' =
             (if 1000 - lastMatchTime match_example < COMBO_TIMEOUT \<and>
                 lastMatchTime match_example > 0
              then comboCount match_example + 1 else 1)"
    and s: "score g' = score match_example +
              match_points 20 (length (getSelectedCubes match_example))
                (match_multiplier (comboCount g') 20 k)"
    by blast
  from c have c1: "comboCount g' = 1" by (simp add: match_example_facts)
  from k match_example_no_clear have k0: "k = 0"
    unfolding match_example_facts(2) by blast
  from s have "score g' = 80"
    unfolding c1 k0 match_example_refs(3) match_example_facts(7) using a by simp
  with r c1 a match_example_columns(3) show ?thesis by simp
qed

theorem onTargetMatch_points_witness:
  "targets match_example = 20 # [9, 11] \<and>
   refs_ok match_example (getSelectedCubes match_example) \<and>
   columns_ok match_example \<and> getSelectedCubes match_example \<noteq> [] \<and>
   planned_keys match_example \<and> unit_draws (rnd match_example) \<and>
   (\<exists>g'. onTargetMatch match_example (getSelectedCubes match_example) 1000 = Some g' \<and>
         comboCount g' = 1 \<and> score g' = 80)"
proof -
  from onTargetMatch_points [OF match_example_facts(1) match_example_refs(1)
         match_example_facts(3) match_example_refs(2) match_example_facts(4,5), of 1000]
  obtain g' where
    r: "onTargetMatch match_example (getSelectedCubes match_example) 1000 = Some g'"
    and c: "comboCount g' =
              (if 1000 - lastMatchTime match_example < 5000 \<and> lastMatchTime match_example > 0
               then comboCount match_example + 1 else 1)"
    and s: "score g' = score match_example +
              \<lfloor>real_of_int 20 * real (length (getSelectedCubes match_example)) *
                 claimed_multiplier (comboCount g') 20
                   (\<exists>c<length (columns match_example). columns match_example ! c \<noteq> [] \<and>
                       (\<forall>i<length (columns match_example ! c).
                           (c, i) \<in> set (getSelectedCubes match_example)))\<rfloor>"
    by blast
  from c have c1: "comboCount g' = 1" by (simp add: match_example_facts)
  have nc: "(\<exists>c<length (columns match_example). columns match_example ! c \<noteq> [] \<and>
                       (\<forall>i<length (columns match_example ! c).
                           (c, i) \<in> set (getSelectedCubes match_example))) = False"
    using match_example_no_clear unfolding match_example_facts(2) by simp
  from s have "score g' = 80"
    unfolding c1 nc match_example_refs(3) match_example_facts(7)
    by (simp add: claimed_multiplier_def)
  with r c1 have "\<exists>g'. onTargetMatch match_example (getSelectedCubes match_example) 1000 = Some g' \<and>
         comboCount g' = 1 \<and> score g' = 80" by blast
  with match_example_facts(1,3,4,5) match_example_refs(1,2) show ?thesis
    by (intro conjI)
qed

theorem first_match_combo_is_one_witness:
  "lastMatchTime match_example = 0 \<and>
   targets match_example = 20 # [9, 11] \<and>
   refs_ok match_example (getSelectedCubes match_example) \<and>
   columns_ok match_example \<and> getSelectedCubes match_example \<noteq> [] \<and>
   planned_keys match_example \<and> unit_draws (rnd match_example) \<and>
   (\<exists>g'. onTargetMatch match_example (getSelectedCubes match_example) 100 = Some g' \<and>
         comboCount g' = 1)"
proof -
  from first_match_combo_is_one [OF match_example_facts(6) match_example_facts(1)
         match_example_refs(1) match_example_facts(3) match_example_refs(2)
         match_example_facts(4,5), of 100]
  have "\<exists>g'. onTargetMatch match_example (getSelectedCubes match_example) 100 = Some g' \<and>
         comboCount g' = 1" by blast
  with match_example_facts(6,1,3,4,5) match_example_refs(1,2) show ?thesis
    by (intro conjI)
qed

end
